theory Spec2Isabelle
  imports Main
begin

section \<open>Feed component: the per-view post list\<close>

text \<open>
  A post snapshot as the REST API and the push channel deliver it. The JavaScript field
  \<^verbatim>\<open>id\<close> is written \<open>id'\<close>, since \<open>id\<close> is the identity function of HOL.
\<close>

record post =
  id' :: int
  author_id :: int
  content :: string
  likes_count :: int
  is_liked :: bool
  comments_count :: int

text \<open>
  The React state of \<^verbatim>\<open>Feed\<close> (one \<^verbatim>\<open>useState\<close> cell per field), the
  \<^verbatim>\<open>isMountedRef\<close> flag, and the messages handed to \<^verbatim>\<open>toast.error\<close>.
\<close>

record feed =
  posts :: "post list"
  loading :: bool
  loadingMore :: bool
  error :: "string option"
  page :: nat
  hasMore :: bool
  newPostsCount :: nat
  isMounted :: bool
  toasts :: "string list"

text \<open>The body of a successful page response: \<^verbatim>\<open>{ posts, has_more }\<close>.\<close>

record page_response =
  r_posts :: "post list"
  has_more :: bool

text \<open>The payload of a \<^verbatim>\<open>like_update\<close> event; \<open>lu_user\<close> is \<^verbatim>\<open>data.user?.id\<close>.\<close>

record like_update =
  lu_post_id :: int
  lu_likes_count :: int
  lu_user :: "int option"
  lu_isLike :: bool

text \<open>
  The \<^verbatim>\<open>userId\<close> prop is a number, or \<^verbatim>\<open>null\<close>/\<^verbatim>\<open>undefined\<close>/\<^verbatim>\<open>NaN\<close>
  (here \<open>None\<close>). JavaScript treats \<open>0\<close> as false as well, so a view is scoped to an
  author exactly when the prop is a non-zero number.
\<close>

definition truthy :: "int option \<Rightarrow> bool" where
  "truthy userId = (case userId of None \<Rightarrow> False | Some u \<Rightarrow> u \<noteq> 0)"

definition initial_feed :: feed where
  "initial_feed = \<lparr>posts = [], loading = True, loadingMore = False, error = None,
     page = 1, hasMore = True, newPostsCount = 0, isMounted = True, toasts = []\<rparr>"

subsection \<open>fetchPosts\<close>

text \<open>
  \<^verbatim>\<open>fetchPosts(pageNum, append)\<close> runs in two parts around its \<^verbatim>\<open>await\<close>:
  \<open>fetchPosts_begin\<close> is the code before the request, \<open>fetchPosts_settle\<close> the code after
  it (the rest of the \<^verbatim>\<open>try\<close>, the \<^verbatim>\<open>catch\<close> and the \<^verbatim>\<open>finally\<close>). The outcome of
  the request is \<open>Inr\<close> of the response body or \<open>Inl\<close> of the optional
  \<^verbatim>\<open>err.response.data.detail\<close>. The parameter \<^verbatim>\<open>append\<close> is written \<open>append'\<close>.
\<close>

definition fetchPosts_begin :: "nat \<Rightarrow> feed \<Rightarrow> feed" where
  "fetchPosts_begin pageNum s =
     (if pageNum = 1 then s\<lparr>loading := True, error := None\<rparr>
      else s\<lparr>loadingMore := True, error := None\<rparr>)"

definition fetch_message :: "string option \<Rightarrow> string" where
  "fetch_message detail =
     (case detail of
        None \<Rightarrow> ''Failed to load posts. Please try again.''
      | Some d \<Rightarrow> if d = [] then ''Failed to load posts. Please try again.'' else d)"

definition fetchPosts_settle ::
  "nat \<Rightarrow> bool \<Rightarrow> string option + page_response \<Rightarrow> feed \<Rightarrow> feed" where
  "fetchPosts_settle pageNum append' outcome s =
     (if \<not> isMounted s then s
      else
        (case outcome of
           Inr response \<Rightarrow>
             s\<lparr>posts := (if append' then posts s @ r_posts response else r_posts response),
               hasMore := has_more response,
               page := pageNum,
               loading := False, loadingMore := False\<rparr>
         | Inl detail \<Rightarrow>
             s\<lparr>error := Some (fetch_message detail),
               toasts := (if pageNum = 1 then toasts s @ [fetch_message detail] else toasts s),
               loading := False, loadingMore := False\<rparr>))"

subsection \<open>Push handlers\<close>

text \<open>
  The \<^verbatim>\<open>new_post\<close> subscription handler. \<open>userId\<close> is the prop, \<open>scrollY\<close> is
  \<^verbatim>\<open>window.scrollY\<close> at the time the state updater runs, \<open>data\<close> is the pushed post.
\<close>

definition on_new_post :: "int option \<Rightarrow> int \<Rightarrow> post \<Rightarrow> feed \<Rightarrow> feed" where
  "on_new_post userId scrollY data s =
     (if \<not> isMounted s then s
      else
        let shouldAdd = (\<not> truthy userId \<or> (truthy userId \<and> Some (author_id data) = userId))
        in if \<not> shouldAdd then s
           else if list_ex (\<lambda>p. id' p = id' data) (posts s) then s
           else if scrollY < 100 then s\<lparr>posts := data # posts s\<rparr>
           else s\<lparr>newPostsCount := newPostsCount s + 1\<rparr>)"

text \<open>
  The \<^verbatim>\<open>like_update\<close> subscription handler. \<open>user\<close> is the id of the signed-in viewer
  (\<open>None\<close> when \<^verbatim>\<open>useAuth().user\<close> is null).
\<close>

definition apply_like :: "int option \<Rightarrow> like_update \<Rightarrow> post \<Rightarrow> post" where
  "apply_like user data p =
     (if id' p = lu_post_id data then
        (if user \<noteq> None \<and> lu_user data = user
         then p\<lparr>likes_count := lu_likes_count data, is_liked := lu_isLike data\<rparr>
         else p\<lparr>likes_count := lu_likes_count data\<rparr>)
      else p)"

definition on_like_update :: "int option \<Rightarrow> like_update \<Rightarrow> feed \<Rightarrow> feed" where
  "on_like_update user data s =
     (if \<not> isMounted s then s
      else s\<lparr>posts := map (apply_like user data) (posts s)\<rparr>)"

text \<open>A run of \<^verbatim>\<open>new_post\<close> events, each with the scroll position it meets.\<close>

fun on_new_posts :: "int option \<Rightarrow> (int \<times> post) list \<Rightarrow> feed \<Rightarrow> feed" where
  "on_new_posts userId [] s = s"
| "on_new_posts userId ((scrollY, data) # evs) s =
     on_new_posts userId evs (on_new_post userId scrollY data s)"

text \<open>The invariant of the Feed View State: no post id occurs twice.\<close>

definition unique_ids :: "post list \<Rightarrow> bool" where
  "unique_ids ps = distinct (map id' ps)"

definition mk_post :: "int \<Rightarrow> int \<Rightarrow> post" where
  "mk_post i a = \<lparr>id' = i, author_id = a, content = [], likes_count = 0,
     is_liked = False, comments_count = 0\<rparr>"

section \<open>Post component: the optimistic like toggle\<close>

text \<open>
  The local state of \<^verbatim>\<open>Post\<close> that \<^verbatim>\<open>handleLike\<close> reads and writes, and the
  messages handed to \<^verbatim>\<open>toast.error\<close>.
\<close>

record post_view =
  isLiked :: bool
  likesCount :: int
  isLiking :: bool
  likeAnimation :: bool
  like_toasts :: "string list"

text \<open>
  \<^verbatim>\<open>handleLike\<close> up to its \<^verbatim>\<open>await\<close>. The second component is what the suspended call
  holds: \<open>None\<close> when the call returned at the \<^verbatim>\<open>isLiking\<close> guard, otherwise the
  captured pair \<^verbatim>\<open>(previousIsLiked, previousCount)\<close>.
\<close>

definition handleLike_begin :: "post_view \<Rightarrow> post_view \<times> (bool \<times> int) option" where
  "handleLike_begin s =
     (if isLiking s then (s, None)
      else
        (s\<lparr>isLiking := True,
           isLiked := \<not> isLiked s,
           likesCount := (if isLiked s then likesCount s - 1 else likesCount s + 1),
           likeAnimation := (if \<not> isLiked s then True else likeAnimation s)\<rparr>,
         Some (isLiked s, likesCount s)))"

text \<open>
  \<^verbatim>\<open>handleLike\<close> after its \<^verbatim>\<open>await\<close>, on the state the component has by then:
  \<open>ok\<close> tells whether \<^verbatim>\<open>likesAPI.toggleLike\<close> resolved; the \<^verbatim>\<open>catch\<close> restores the
  captured pair, the \<^verbatim>\<open>finally\<close> clears \<^verbatim>\<open>isLiking\<close>.
\<close>

definition handleLike_settle :: "bool \<times> int \<Rightarrow> bool \<Rightarrow> post_view \<Rightarrow> post_view" where
  "handleLike_settle previous ok s =
     (if ok then s\<lparr>isLiking := False\<rparr>
      else s\<lparr>isLiked := fst previous,
             likesCount := snd previous,
             like_toasts := like_toasts s @ [''Failed to update like''],
             isLiking := False\<rparr>)"

text \<open>The callback of the 600 ms timer that ends the heart animation.\<close>

definition likeAnimation_end :: "post_view \<Rightarrow> post_view" where
  "likeAnimation_end s = s\<lparr>likeAnimation := False\<rparr>"

section \<open>WebSocketService: transport and event bus\<close>

text \<open>Payloads handed to subscribers are JSON values.\<close>

datatype json = JNull | JBool bool | JNum int | JStr string | JObj "(string \<times> json) list"

text \<open>
  A callback is a JavaScript function object. The \<^verbatim>\<open>Set\<close> of listeners compares
  callbacks by reference, so a callback is modelled by its reference \<open>hid\<close>, and what it
  does when called is looked up in a table of handlers. A handler acts on the state \<open>'w\<close>
  of the subscribers and either returns or throws; it does not call back into the
  service while it runs.
\<close>

type_synonym hid = nat

datatype 'w outcome = Returned 'w | Threw 'w string

type_synonym 'w handlers = "hid \<Rightarrow> json \<Rightarrow> 'w \<Rightarrow> 'w outcome"

text \<open>
  A JavaScript \<^verbatim>\<open>Set\<close> keeps its elements in insertion order without repetition. It is
  a list; \<^verbatim>\<open>add\<close> of a present element changes nothing, \<^verbatim>\<open>delete\<close> takes the element
  out.
\<close>

definition set_add :: "'a \<Rightarrow> 'a list \<Rightarrow> 'a list" where
  "set_add x xs = (if x \<in> set xs then xs else xs @ [x])"

definition set_delete :: "'a \<Rightarrow> 'a list \<Rightarrow> 'a list" where
  "set_delete x xs = removeAll x xs"

text \<open>
  The fields of the service object. \<open>ws\<close> is the URL the current socket object was made
  with (\<open>None\<close> for \<^verbatim>\<open>null\<close>); \<open>pingInterval\<close> tells whether an interval handle is held.
\<close>

record ws_service =
  ws :: "string option"
  listeners :: "string \<rightharpoonup> hid list"
  reconnectAttempts :: nat
  maxReconnectAttempts :: nat
  reconnectDelay :: nat
  isConnected :: bool
  token :: "string option"
  pingInterval :: bool

text \<open>Calls made on socket objects: \<^verbatim>\<open>new WebSocket(url)\<close> and \<^verbatim>\<open>close(code, reason)\<close>.\<close>

datatype socket_call = New string | CloseCall "(int \<times> string) option"

text \<open>
  What the service acts on outside itself: the state of the subscribers, the lines written
  to the console (fixed text only), every callback invocation \<open>(event, callback, payload)\<close>
  and every call of \<^verbatim>\<open>emit\<close> in order, every delay given to \<^verbatim>\<open>setTimeout\<close> in order,
  the delays of the timers that have not fired yet, the calls made on sockets, and the
  page's \<^verbatim>\<open>window.location\<close> (whether the protocol is \<^verbatim>\<open>https:\<close>, and the host).
\<close>

record 'w env =
  world :: 'w
  console :: "string list"
  invoked :: "(string \<times> hid \<times> json) list"
  emitted :: "(string \<times> json) list"
  scheduled :: "nat list"
  timers :: "nat list"
  sockets :: "socket_call list"
  secure :: bool
  host :: string

definition constructor :: ws_service where
  "constructor = \<lparr>ws = None, listeners = Map.empty, reconnectAttempts = 0,
     maxReconnectAttempts = 5, reconnectDelay = 1000, isConnected = False, token = None,
     pingInterval = False\<rparr>"

subsection \<open>Event bus\<close>

definition subscribe :: "string \<Rightarrow> hid \<Rightarrow> ws_service \<Rightarrow> ws_service \<times> (string \<times> hid)" where
  "subscribe event callback s =
     (let cbs = (case listeners s event of None \<Rightarrow> [] | Some cbs \<Rightarrow> cbs)
      in (s\<lparr>listeners := (listeners s)(event \<mapsto> set_add callback cbs)\<rparr>, (event, callback)))"

definition unsubscribe :: "string \<Rightarrow> hid \<Rightarrow> ws_service \<Rightarrow> ws_service" where
  "unsubscribe event callback s =
     (case listeners s event of
        None \<Rightarrow> s
      | Some cbs \<Rightarrow> s\<lparr>listeners := (listeners s)(event \<mapsto> set_delete callback cbs)\<rparr>)"

text \<open>
  The function that \<^verbatim>\<open>subscribe\<close> returns closes over its two arguments; calling it is
  \<^verbatim>\<open>this.unsubscribe(event, callback)\<close> on the service as it is then.
\<close>

definition call_unsub :: "string \<times> hid \<Rightarrow> ws_service \<Rightarrow> ws_service" where
  "call_unsub u s = unsubscribe (fst u) (snd u) s"

text \<open>One turn of the \<^verbatim>\<open>forEach\<close> in \<^verbatim>\<open>emit\<close>: the call inside \<^verbatim>\<open>try\<close>/\<^verbatim>\<open>catch\<close>.\<close>

definition call_listener :: "'w handlers \<Rightarrow> string \<Rightarrow> json \<Rightarrow> hid \<Rightarrow> 'w env \<Rightarrow> 'w env" where
  "call_listener H event data callback e =
     (case H callback data (world e) of
        Returned w \<Rightarrow> e\<lparr>world := w, invoked := invoked e @ [(event, callback, data)]\<rparr>
      | Threw w err \<Rightarrow>
          e\<lparr>world := w, invoked := invoked e @ [(event, callback, data)],
            console := console e @ [''Error in WebSocket listener for '' @ event @ '': '' @ err]\<rparr>)"

fun forEach_listener :: "'w handlers \<Rightarrow> string \<Rightarrow> json \<Rightarrow> hid list \<Rightarrow> 'w env \<Rightarrow> 'w env" where
  "forEach_listener H event data [] e = e"
| "forEach_listener H event data (callback # cbs) e =
     forEach_listener H event data cbs (call_listener H event data callback e)"

definition emit :: "'w handlers \<Rightarrow> ws_service \<Rightarrow> string \<Rightarrow> json \<Rightarrow> 'w env \<Rightarrow> 'w env" where
  "emit H s event data e =
     (case listeners s event of
        None \<Rightarrow> e\<lparr>emitted := emitted e @ [(event, data)]\<rparr>
      | Some cbs \<Rightarrow> forEach_listener H event data cbs (e\<lparr>emitted := emitted e @ [(event, data)]\<rparr>))"

subsection \<open>Transport\<close>

definition stopPingInterval :: "ws_service \<Rightarrow> ws_service" where
  "stopPingInterval s = (if pingInterval s then s\<lparr>pingInterval := False\<rparr> else s)"

definition startPingInterval :: "ws_service \<Rightarrow> ws_service" where
  "startPingInterval s = (stopPingInterval s)\<lparr>pingInterval := True\<rparr>"

text \<open>
  \<^verbatim>\<open>Math.pow(2, n - 1)\<close> is exact for the exponents that occur (at most
  \<^verbatim>\<open>maxReconnectAttempts - 1\<close>), and \<open>n\<close> is at least 1 after the increment.
\<close>

definition scheduleReconnect :: "'w handlers \<Rightarrow> ws_service \<times> 'w env \<Rightarrow> ws_service \<times> 'w env" where
  "scheduleReconnect H se =
     (let s = fst se; e = snd se in
      if reconnectAttempts s \<ge> maxReconnectAttempts s then
        (s, emit H s ''max_reconnect_attempts'' (JObj [])
              (e\<lparr>console := console e @ [''Max reconnection attempts reached'']\<rparr>))
      else
        let s1 = s\<lparr>reconnectAttempts := reconnectAttempts s + 1\<rparr>;
            delay = reconnectDelay s1 * 2 ^ (reconnectAttempts s1 - 1)
        in (s1, e\<lparr>console := console e @ [''Scheduling reconnect attempt''],
                  scheduled := scheduled e @ [delay],
                  timers := timers e @ [delay]\<rparr>))"

definition wsUrl :: "bool \<Rightarrow> string \<Rightarrow> string option \<Rightarrow> string" where
  "wsUrl sec h tok =
     (if sec then ''wss:'' else ''ws:'') @ ''//'' @ h @ ''/ws/feed'' @
     (case tok of None \<Rightarrow> [] | Some t \<Rightarrow> if t = [] then [] else ''?token='' @ t)"

text \<open>
  \<^verbatim>\<open>connect(token)\<close>; \<open>throws\<close> tells whether \<^verbatim>\<open>new WebSocket(wsUrl)\<close> throws, in which
  case \<^verbatim>\<open>this.ws\<close> keeps its old value and the \<^verbatim>\<open>catch\<close> runs.
\<close>

definition connect ::
  "'w handlers \<Rightarrow> string option \<Rightarrow> bool \<Rightarrow> ws_service \<times> 'w env \<Rightarrow> ws_service \<times> 'w env" where
  "connect H tok throws se =
     (let s = (fst se)\<lparr>token := tok\<rparr>;
          e = (if ws s \<noteq> None then (snd se)\<lparr>sockets := sockets (snd se) @ [CloseCall None]\<rparr>
               else snd se)
      in if throws then
           scheduleReconnect H (s, e\<lparr>console := console e @ [''WebSocket connection error:'']\<rparr>)
         else
           (s\<lparr>ws := Some (wsUrl (secure e) (host e) tok)\<rparr>,
            e\<lparr>sockets := sockets e @ [New (wsUrl (secure e) (host e) tok)]\<rparr>))"

text \<open>The handlers that \<^verbatim>\<open>setupEventHandlers\<close> puts on the socket.\<close>

definition onopen :: "'w handlers \<Rightarrow> ws_service \<times> 'w env \<Rightarrow> ws_service \<times> 'w env" where
  "onopen H se =
     (let s = (fst se)\<lparr>isConnected := True, reconnectAttempts := 0\<rparr>;
          e = emit H s ''connected'' (JObj [(''connected'', JBool True)])
                ((snd se)\<lparr>console := console (snd se) @ [''WebSocket connected'']\<rparr>)
      in (startPingInterval s, e))"

definition onclose ::
  "'w handlers \<Rightarrow> int \<Rightarrow> string \<Rightarrow> ws_service \<times> 'w env \<Rightarrow> ws_service \<times> 'w env" where
  "onclose H code reason se =
     (let s = stopPingInterval ((fst se)\<lparr>isConnected := False\<rparr>);
          e = emit H s ''disconnected'' (JObj [(''code'', JNum code), (''reason'', JStr reason)])
                ((snd se)\<lparr>console := console (snd se) @ [''WebSocket disconnected:'']\<rparr>)
      in if code \<noteq> 1000 then scheduleReconnect H (s, e) else (s, e))"

definition onerror :: "'w handlers \<Rightarrow> json \<Rightarrow> ws_service \<times> 'w env \<Rightarrow> ws_service \<times> 'w env" where
  "onerror H err se =
     (fst se, emit H (fst se) ''error'' (JObj [(''error'', err)])
                ((snd se)\<lparr>console := console (snd se) @ [''WebSocket error:'']\<rparr>))"

text \<open>
  The callback given to \<^verbatim>\<open>setTimeout\<close> by \<^verbatim>\<open>scheduleReconnect\<close>, run when a pending
  timer fires (nothing runs when none is pending).
\<close>

definition timer_fired ::
  "'w handlers \<Rightarrow> bool \<Rightarrow> ws_service \<times> 'w env \<Rightarrow> ws_service \<times> 'w env" where
  "timer_fired H throws se =
     (case timers (snd se) of
        [] \<Rightarrow> se
      | d # ds \<Rightarrow>
          if \<not> isConnected (fst se) then connect H (token (fst se)) throws (fst se, (snd se)\<lparr>timers := ds\<rparr>)
          else (fst se, (snd se)\<lparr>timers := ds\<rparr>))"

definition disconnect :: "ws_service \<times> 'w env \<Rightarrow> ws_service \<times> 'w env" where
  "disconnect se =
     (let s = stopPingInterval (fst se) in
      if ws s \<noteq> None then
        (s\<lparr>ws := None, isConnected := False, listeners := Map.empty\<rparr>,
         (snd se)\<lparr>sockets := sockets (snd se) @ [CloseCall (Some (1000, ''User disconnect''))]\<rparr>)
      else (s\<lparr>isConnected := False, listeners := Map.empty\<rparr>, snd se))"

text \<open>
  Everything that can happen to the service: a call of one of its methods by the
  application, or a callback run by the browser.
\<close>

datatype event =
    Connect "string option" bool
  | Open
  | Close int string
  | Error json
  | Timer bool
  | Disconnect
  | Subscribe string hid
  | Unsubscribe string hid

fun step :: "'w handlers \<Rightarrow> event \<Rightarrow> ws_service \<times> 'w env \<Rightarrow> ws_service \<times> 'w env" where
  "step H (Connect tok throws) se = connect H tok throws se"
| "step H Open se = onopen H se"
| "step H (Close code reason) se = onclose H code reason se"
| "step H (Error err) se = onerror H err se"
| "step H (Timer throws) se = timer_fired H throws se"
| "step H Disconnect se = disconnect se"
| "step H (Subscribe ev cb) se = (fst (subscribe ev cb (fst se)), snd se)"
| "step H (Unsubscribe ev cb) se = (unsubscribe ev cb (fst se), snd se)"

fun run :: "'w handlers \<Rightarrow> event list \<Rightarrow> ws_service \<times> 'w env \<Rightarrow> ws_service \<times> 'w env" where
  "run H [] se = se"
| "run H (ev # evs) se = run H evs (step H ev se)"

text \<open>
  A connection failure followed by the firing of the timer it set: the socket closes with
  a code and a reason, then the pending timer (if there is one) runs its callback, whose
  \<^verbatim>\<open>new WebSocket\<close> does not throw.
\<close>

fun failures :: "(int \<times> string) list \<Rightarrow> event list" where
  "failures [] = []"
| "failures ((code, reason) # cs) = Close code reason # Timer False # failures cs"

text \<open>The \<^verbatim>\<open>new WebSocket\<close> calls among the calls made on sockets.\<close>

fun is_New :: "socket_call \<Rightarrow> bool" where
  "is_New (New url) = True"
| "is_New (CloseCall c) = False"

fun is_Connect :: "event \<Rightarrow> bool" where
  "is_Connect (Connect tok throws) = True"
| "is_Connect ev = False"

text \<open>The representation invariant of the listener sets: no callback is held twice.\<close>

definition listeners_ok :: "ws_service \<Rightarrow> bool" where
  "listeners_ok s = (\<forall>ev cbs. listeners s ev = Some cbs \<longrightarrow> distinct cbs)"

text \<open>
  Fixed surroundings for concrete runs: handlers that return at once except callback 13,
  which throws after counting itself; the subscribers' state is a counter of calls.
\<close>

definition counting :: "nat handlers" where
  "counting cb data w = (if cb = 13 then Threw (w + 1) ''boom'' else Returned (w + 1))"

definition env0 :: "nat env" where
  "env0 = \<lparr>world = 0, console = [], invoked = [], emitted = [], scheduled = [], timers = [],
     sockets = [], secure = False, host = ''localhost''\<rparr>"

text \<open>
  How one or more steps without a successful open relate the state before to the state
  after: the two constants stay, the attempt count moves up within the budget, and the
  delays given to \<^verbatim>\<open>setTimeout\<close> meanwhile are the constant times \<open>2 ^ k\<close> for
  every \<open>k\<close> from the count before up to, not including, the count after.
\<close>

definition within_budget :: "ws_service \<times> 'w env \<Rightarrow> ws_service \<times> 'w env \<Rightarrow> bool" where
  "within_budget se se' =
     (maxReconnectAttempts (fst se') = maxReconnectAttempts (fst se) \<and>
      reconnectDelay (fst se') = reconnectDelay (fst se) \<and>
      reconnectAttempts (fst se) \<le> reconnectAttempts (fst se') \<and>
      reconnectAttempts (fst se') \<le> maxReconnectAttempts (fst se) \<and>
      scheduled (snd se') = scheduled (snd se) @
        map (\<lambda>k. reconnectDelay (fst se) * 2 ^ k)
          [reconnectAttempts (fst se) ..< reconnectAttempts (fst se')])"

text \<open>The \<^verbatim>\<open>disconnected\<close> emission of a close with a code and a reason.\<close>

definition disconnected :: "int \<times> string \<Rightarrow> string \<times> json" where
  "disconnected c = (''disconnected'', JObj [(''code'', JNum (fst c)), (''reason'', JStr (snd c))])"

section \<open>Properties of the Feed component\<close>

lemma on_new_post_unique:
  "unique_ids (posts s) \<Longrightarrow> unique_ids (posts (on_new_post userId y d s))"
  by (auto simp: on_new_post_def unique_ids_def Let_def list_ex_iff)

lemma on_new_posts_unique:
  "unique_ids (posts s) \<Longrightarrow> unique_ids (posts (on_new_posts userId evs s))"
  by (induction evs arbitrary: s) (auto simp: on_new_post_unique)

lemma apply_like_other: "id' p \<noteq> lu_post_id d \<Longrightarrow> apply_like u d p = p"
  by (simp add: apply_like_def)

lemma apply_like_hit:
  "id' p = lu_post_id d \<Longrightarrow>
   apply_like u d p =
     p\<lparr>likes_count := lu_likes_count d,
       is_liked := (if u \<noteq> None \<and> lu_user d = u then lu_isLike d else is_liked p)\<rparr>"
  by (simp add: apply_like_def)

lemma map_apply_like_miss:
  "\<forall>p \<in> set ps. id' p \<noteq> lu_post_id d \<Longrightarrow> map (apply_like u d) ps = ps"
  by (induction ps) (simp_all add: apply_like_other)

text \<open>
  C1. Appending a fetched page to the Feed View State never yields a state in which a
  post id occurs twice. The code does not establish this: the append branch concatenates
  the page onto the list as it is. With pages of two posts, the view holds posts 3 and 2;
  a post is created elsewhere, so the second page is now posts 2 and 1, and the view ends
  with post 2 twice.
\<close>

theorem fetchPosts_append_duplicates:
  "unique_ids (posts (initial_feed\<lparr>posts := [mk_post 3 7, mk_post 2 7]\<rparr>)) \<and>
   unique_ids [mk_post 2 7, mk_post 1 7] \<and>
   posts (fetchPosts_settle 2 True (Inr \<lparr>r_posts = [mk_post 2 7, mk_post 1 7], has_more = False\<rparr>)
            (fetchPosts_begin 2 (initial_feed\<lparr>posts := [mk_post 3 7, mk_post 2 7]\<rparr>)))
     = [mk_post 3 7, mk_post 2 7, mk_post 2 7, mk_post 1 7] \<and>
   \<not> unique_ids (posts (fetchPosts_settle 2 True
            (Inr \<lparr>r_posts = [mk_post 2 7, mk_post 1 7], has_more = False\<rparr>)
            (fetchPosts_begin 2 (initial_feed\<lparr>posts := [mk_post 3 7, mk_post 2 7]\<rparr>))))"
  by (simp add: fetchPosts_settle_def fetchPosts_begin_def initial_feed_def unique_ids_def
      mk_post_def)

text \<open>
  C2. The \<^verbatim>\<open>new_post\<close> handler of a mounted view: a post of another author than the one
  the view is scoped to leaves the state as it is; otherwise a post whose id is present
  leaves the state as it is; otherwise, at the top of the page (\<^verbatim>\<open>scrollY < 100\<close>) the
  post is put in front; otherwise the list stays and the counter of pending posts grows by
  one. After teardown the handler does nothing. Hence no run of \<^verbatim>\<open>new_post\<close> events
  brings a duplicate id into a list that had none.
\<close>

theorem new_post_handler:
  "(\<not> isMounted s \<longrightarrow> on_new_post userId y d s = s) \<and>
   (isMounted s \<longrightarrow>
      (truthy userId \<and> Some (author_id d) \<noteq> userId \<longrightarrow> on_new_post userId y d s = s) \<and>
      (\<not> (truthy userId \<and> Some (author_id d) \<noteq> userId) \<longrightarrow>
         ((\<exists>p \<in> set (posts s). id' p = id' d) \<longrightarrow> on_new_post userId y d s = s) \<and>
         (\<not> (\<exists>p \<in> set (posts s). id' p = id' d) \<longrightarrow>
            (y < 100 \<longrightarrow> on_new_post userId y d s = s\<lparr>posts := d # posts s\<rparr>) \<and>
            (\<not> y < 100 \<longrightarrow>
               on_new_post userId y d s = s\<lparr>newPostsCount := newPostsCount s + 1\<rparr> \<and>
               posts (on_new_post userId y d s) = posts s \<and>
               newPostsCount (on_new_post userId y d s) = newPostsCount s + 1)))) \<and>
   (unique_ids (posts s) \<longrightarrow> unique_ids (posts (on_new_posts userId evs s)))"
proof -
  have run: "unique_ids (posts s) \<longrightarrow> unique_ids (posts (on_new_posts userId evs s))"
    by (simp add: on_new_posts_unique)
  have one: "isMounted s \<longrightarrow>
      (truthy userId \<and> Some (author_id d) \<noteq> userId \<longrightarrow> on_new_post userId y d s = s) \<and>
      (\<not> (truthy userId \<and> Some (author_id d) \<noteq> userId) \<longrightarrow>
         ((\<exists>p \<in> set (posts s). id' p = id' d) \<longrightarrow> on_new_post userId y d s = s) \<and>
         (\<not> (\<exists>p \<in> set (posts s). id' p = id' d) \<longrightarrow>
            (y < 100 \<longrightarrow> on_new_post userId y d s = s\<lparr>posts := d # posts s\<rparr>) \<and>
            (\<not> y < 100 \<longrightarrow>
               on_new_post userId y d s = s\<lparr>newPostsCount := newPostsCount s + 1\<rparr> \<and>
               posts (on_new_post userId y d s) = posts s \<and>
               newPostsCount (on_new_post userId y d s) = newPostsCount s + 1)))"
    by (auto simp: on_new_post_def Let_def list_ex_iff)
  have off: "\<not> isMounted s \<longrightarrow> on_new_post userId y d s = s"
    by (simp add: on_new_post_def)
  from off one run show ?thesis by blast
qed

theorem new_post_handler_witness:
  "on_new_post (Some 7) 0 (mk_post 2 8) (initial_feed\<lparr>posts := [mk_post 1 7]\<rparr>)
     = initial_feed\<lparr>posts := [mk_post 1 7]\<rparr> \<and>
   on_new_post None 0 (mk_post 1 8) (initial_feed\<lparr>posts := [mk_post 1 7]\<rparr>)
     = initial_feed\<lparr>posts := [mk_post 1 7]\<rparr> \<and>
   on_new_post None 0 (mk_post 2 8) (initial_feed\<lparr>posts := [mk_post 1 7]\<rparr>)
     = initial_feed\<lparr>posts := [mk_post 2 8, mk_post 1 7]\<rparr> \<and>
   on_new_post None 500 (mk_post 2 8) (initial_feed\<lparr>posts := [mk_post 1 7]\<rparr>)
     = initial_feed\<lparr>posts := [mk_post 1 7], newPostsCount := 1\<rparr> \<and>
   unique_ids (posts (on_new_posts None [(0, mk_post 2 8), (500, mk_post 3 8), (0, mk_post 2 8)]
     (initial_feed\<lparr>posts := [mk_post 1 7]\<rparr>)))"
  using new_post_handler [of "initial_feed\<lparr>posts := [mk_post 1 7]\<rparr>" "Some 7" 0 "mk_post 2 8" "[]"]
    new_post_handler [of "initial_feed\<lparr>posts := [mk_post 1 7]\<rparr>" None 0 "mk_post 1 8"
      "[(0, mk_post 2 8), (500, mk_post 3 8), (0, mk_post 2 8)]"]
    new_post_handler [of "initial_feed\<lparr>posts := [mk_post 1 7]\<rparr>" None 0 "mk_post 2 8" "[]"]
    new_post_handler [of "initial_feed\<lparr>posts := [mk_post 1 7]\<rparr>" None 500 "mk_post 2 8" "[]"]
  by (simp add: initial_feed_def mk_post_def truthy_def unique_ids_def)

text \<open>
  C3. The \<^verbatim>\<open>like_update\<close> handler of a mounted view: every post whose id is the
  payload's \<^verbatim>\<open>post_id\<close> gets the payload's \<^verbatim>\<open>likes_count\<close> as its count, whatever the
  count was, and gets the payload's \<^verbatim>\<open>isLike\<close> as its \<^verbatim>\<open>is_liked\<close> exactly when a
  viewer is signed in and is the acting user; all its other fields, every other post and
  the rest of the state stay as they are; when no post has that id the state is the same
  state. The handler has no failing branch.
\<close>

theorem like_update_handler:
  "isMounted s \<Longrightarrow>
   length (posts (on_like_update u d s)) = length (posts s) \<and>
   (\<forall>i < length (posts s).
      (id' (posts s ! i) = lu_post_id d \<longrightarrow>
         posts (on_like_update u d s) ! i =
           (posts s ! i)\<lparr>likes_count := lu_likes_count d,
             is_liked := (if u \<noteq> None \<and> lu_user d = u then lu_isLike d
                          else is_liked (posts s ! i))\<rparr> \<and>
         likes_count (posts (on_like_update u d s) ! i) = lu_likes_count d) \<and>
      (id' (posts s ! i) \<noteq> lu_post_id d \<longrightarrow>
         posts (on_like_update u d s) ! i = posts s ! i)) \<and>
   on_like_update u d s = s\<lparr>posts := posts (on_like_update u d s)\<rparr> \<and>
   ((\<forall>p \<in> set (posts s). id' p \<noteq> lu_post_id d) \<longrightarrow> on_like_update u d s = s)"
proof -
  assume m: "isMounted s"
  then have ps: "posts (on_like_update u d s) = map (apply_like u d) (posts s)"
    by (simp add: on_like_update_def)
  have len: "length (posts (on_like_update u d s)) = length (posts s)"
    by (simp add: ps)
  have each: "\<forall>i < length (posts s).
      (id' (posts s ! i) = lu_post_id d \<longrightarrow>
         posts (on_like_update u d s) ! i =
           (posts s ! i)\<lparr>likes_count := lu_likes_count d,
             is_liked := (if u \<noteq> None \<and> lu_user d = u then lu_isLike d
                          else is_liked (posts s ! i))\<rparr> \<and>
         likes_count (posts (on_like_update u d s) ! i) = lu_likes_count d) \<and>
      (id' (posts s ! i) \<noteq> lu_post_id d \<longrightarrow>
         posts (on_like_update u d s) ! i = posts s ! i)"
    by (simp add: ps apply_like_other apply_like_hit)
  have rest: "on_like_update u d s = s\<lparr>posts := posts (on_like_update u d s)\<rparr>"
    using m by (simp add: on_like_update_def)
  have miss: "(\<forall>p \<in> set (posts s). id' p \<noteq> lu_post_id d) \<longrightarrow> on_like_update u d s = s"
    using m by (simp add: on_like_update_def map_apply_like_miss)
  from len each rest miss show ?thesis by blast
qed

theorem like_update_handler_witness:
  "isMounted (initial_feed\<lparr>posts := [mk_post 1 7, mk_post 2 7]\<rparr>) \<and>
   posts (on_like_update (Some 9)
       \<lparr>lu_post_id = 2, lu_likes_count = 5, lu_user = Some 9, lu_isLike = True\<rparr>
       (initial_feed\<lparr>posts := [mk_post 1 7, mk_post 2 7]\<rparr>))
     = [mk_post 1 7, (mk_post 2 7)\<lparr>likes_count := 5, is_liked := True\<rparr>] \<and>
   on_like_update (Some 9)
       \<lparr>lu_post_id = 3, lu_likes_count = 5, lu_user = Some 9, lu_isLike = True\<rparr>
       (initial_feed\<lparr>posts := [mk_post 1 7, mk_post 2 7]\<rparr>)
     = initial_feed\<lparr>posts := [mk_post 1 7, mk_post 2 7]\<rparr>"
proof -
  have m: "isMounted (initial_feed\<lparr>posts := [mk_post 1 7, mk_post 2 7]\<rparr>)"
    by (simp add: initial_feed_def)
  have a: "posts (on_like_update (Some 9)
       \<lparr>lu_post_id = 2, lu_likes_count = 5, lu_user = Some 9, lu_isLike = True\<rparr>
       (initial_feed\<lparr>posts := [mk_post 1 7, mk_post 2 7]\<rparr>))
     = [mk_post 1 7, (mk_post 2 7)\<lparr>likes_count := 5, is_liked := True\<rparr>]"
    using like_update_handler [OF m, of "Some 9"
        "\<lparr>lu_post_id = 2, lu_likes_count = 5, lu_user = Some 9, lu_isLike = True\<rparr>"]
    by (simp add: initial_feed_def mk_post_def list_eq_iff_nth_eq less_Suc_eq all_conj_distrib)
  have b: "on_like_update (Some 9)
       \<lparr>lu_post_id = 3, lu_likes_count = 5, lu_user = Some 9, lu_isLike = True\<rparr>
       (initial_feed\<lparr>posts := [mk_post 1 7, mk_post 2 7]\<rparr>)
     = initial_feed\<lparr>posts := [mk_post 1 7, mk_post 2 7]\<rparr>"
    using like_update_handler [OF m, of "Some 9"
        "\<lparr>lu_post_id = 3, lu_likes_count = 5, lu_user = Some 9, lu_isLike = True\<rparr>"]
    by (simp add: initial_feed_def mk_post_def)
  from m a b show ?thesis by blast
qed

section \<open>Properties of the Post component\<close>

text \<open>
  C8. A like toggle that starts (no other toggle of this post is in flight) flips
  \<^verbatim>\<open>isLiked\<close> and moves \<^verbatim>\<open>likesCount\<close> by one, up when the post was not liked and down
  when it was, before the request is settled, and keeps the pair it found. When the
  request fails, both are set back to that pair whatever the state has become meanwhile;
  with nothing in between, the state is the one before the click, apart from the
  animation flag that the click set and the error toast.
\<close>

theorem like_toggle_rollback:
  "\<not> isLiking s \<Longrightarrow>
   snd (handleLike_begin s) = Some (isLiked s, likesCount s) \<and>
   isLiked (fst (handleLike_begin s)) = (\<not> isLiked s) \<and>
   likesCount (fst (handleLike_begin s)) = (if isLiked s then likesCount s - 1 else likesCount s + 1) \<and>
   isLiking (fst (handleLike_begin s)) \<and>
   (\<forall>t. isLiked (handleLike_settle (isLiked s, likesCount s) False t) = isLiked s \<and>
        likesCount (handleLike_settle (isLiked s, likesCount s) False t) = likesCount s \<and>
        isLiking (handleLike_settle (isLiked s, likesCount s) False t) = isLiking s) \<and>
   handleLike_settle (isLiked s, likesCount s) False (fst (handleLike_begin s)) =
     s\<lparr>likeAnimation := (if \<not> isLiked s then True else likeAnimation s),
       like_toasts := like_toasts s @ [''Failed to update like'']\<rparr>"
  by (simp add: handleLike_begin_def handleLike_settle_def)

theorem like_toggle_rollback_witness:
  "\<not> isLiking \<lparr>isLiked = True, likesCount = 4, isLiking = False, likeAnimation = False, like_toasts = []\<rparr> \<and>
   handleLike_begin \<lparr>isLiked = True, likesCount = 4, isLiking = False, likeAnimation = False, like_toasts = []\<rparr>
     = (\<lparr>isLiked = False, likesCount = 3, isLiking = True, likeAnimation = False, like_toasts = []\<rparr>,
        Some (True, 4)) \<and>
   handleLike_settle (True, 4) False
       \<lparr>isLiked = False, likesCount = 3, isLiking = True, likeAnimation = False, like_toasts = []\<rparr>
     = \<lparr>isLiked = True, likesCount = 4, isLiking = False, likeAnimation = False,
        like_toasts = [''Failed to update like'']\<rparr>"
proof -
  have h: "\<not> isLiking \<lparr>isLiked = True, likesCount = 4, isLiking = False, likeAnimation = False, like_toasts = []\<rparr>"
    by simp
  show ?thesis
    using h like_toggle_rollback [OF h]
    by (simp add: handleLike_begin_def handleLike_settle_def)
qed

section \<open>Properties of the event bus\<close>

lemma forEach_listener_append:
  "forEach_listener H ev d (xs @ ys) e = forEach_listener H ev d ys (forEach_listener H ev d xs e)"
  by (induction xs arbitrary: e) simp_all

lemma call_listener_invoked:
  "invoked (call_listener H ev d cb e) = invoked e @ [(ev, cb, d)]"
  by (simp add: call_listener_def split: outcome.splits)

lemma call_listener_frame:
  "emitted (call_listener H ev d cb e) = emitted e"
  "scheduled (call_listener H ev d cb e) = scheduled e"
  "timers (call_listener H ev d cb e) = timers e"
  "sockets (call_listener H ev d cb e) = sockets e"
  "secure (call_listener H ev d cb e) = secure e"
  "host (call_listener H ev d cb e) = host e"
  by (simp_all add: call_listener_def split: outcome.splits)

lemma forEach_listener_invoked:
  "invoked (forEach_listener H ev d cbs e) = invoked e @ map (\<lambda>cb. (ev, cb, d)) cbs"
  by (induction cbs arbitrary: e) (simp_all add: call_listener_invoked)

lemma forEach_listener_frame:
  "emitted (forEach_listener H ev d cbs e) = emitted e"
  "scheduled (forEach_listener H ev d cbs e) = scheduled e"
  "timers (forEach_listener H ev d cbs e) = timers e"
  "sockets (forEach_listener H ev d cbs e) = sockets e"
  "secure (forEach_listener H ev d cbs e) = secure e"
  "host (forEach_listener H ev d cbs e) = host e"
  by (induction cbs arbitrary: e) (simp_all add: call_listener_frame)

lemma emit_frame:
  "emitted (emit H s ev d e) = emitted e @ [(ev, d)]"
  "scheduled (emit H s ev d e) = scheduled e"
  "timers (emit H s ev d e) = timers e"
  "sockets (emit H s ev d e) = sockets e"
  "secure (emit H s ev d e) = secure e"
  "host (emit H s ev d e) = host e"
  by (simp_all add: emit_def forEach_listener_frame split: option.splits)

lemma emit_invoked:
  "invoked (emit H s ev d e) =
     invoked e @ map (\<lambda>cb. (ev, cb, d)) (case listeners s ev of None \<Rightarrow> [] | Some cbs \<Rightarrow> cbs)"
  by (simp add: emit_def forEach_listener_invoked split: option.splits)

lemma forEach_listener_world:
  "world (forEach_listener H ev d cbs e) =
     foldl (\<lambda>w cb. case H cb d w of Returned w' \<Rightarrow> w' | Threw w' err \<Rightarrow> w') (world e) cbs"
  by (induction cbs arbitrary: e) (simp_all add: call_listener_def split: outcome.splits)

text \<open>
  C6. An emission for a type that has listeners calls every one of them, once each and in
  the order of registration, each on the subscribers' state its predecessors left,
  whether or not any of them throws. A listener that throws is caught: a line goes to
  the console, and the listeners registered after it are called as they would have been.
\<close>

theorem emit_every_listener:
  "listeners s ev = Some cbs \<Longrightarrow>
   invoked (emit H s ev d e) = invoked e @ map (\<lambda>cb. (ev, cb, d)) cbs \<and>
   world (emit H s ev d e) =
     foldl (\<lambda>w cb. case H cb d w of Returned w' \<Rightarrow> w' | Threw w' err \<Rightarrow> w') (world e) cbs \<and>
   (\<forall>pre cb post w err.
      cbs = pre @ cb # post \<and>
      H cb d (world (forEach_listener H ev d pre (e\<lparr>emitted := emitted e @ [(ev, d)]\<rparr>))) = Threw w err
      \<longrightarrow>
      emit H s ev d e =
        forEach_listener H ev d post
          ((forEach_listener H ev d pre (e\<lparr>emitted := emitted e @ [(ev, d)]\<rparr>))
             \<lparr>world := w,
              invoked := invoked e @ map (\<lambda>cb. (ev, cb, d)) pre @ [(ev, cb, d)],
              console := console (forEach_listener H ev d pre (e\<lparr>emitted := emitted e @ [(ev, d)]\<rparr>))
                 @ [''Error in WebSocket listener for '' @ ev @ '': '' @ err]\<rparr>) \<and>
      invoked (emit H s ev d e) =
        invoked e @ map (\<lambda>cb. (ev, cb, d)) pre @ (ev, cb, d) # map (\<lambda>cb. (ev, cb, d)) post)"
proof -
  assume l: "listeners s ev = Some cbs"
  have a: "invoked (emit H s ev d e) = invoked e @ map (\<lambda>cb. (ev, cb, d)) cbs"
    by (simp add: emit_invoked l)
  have b: "world (emit H s ev d e) =
     foldl (\<lambda>w cb. case H cb d w of Returned w' \<Rightarrow> w' | Threw w' err \<Rightarrow> w') (world e) cbs"
    by (simp add: emit_def l forEach_listener_world)
  have c: "emit H s ev d e =
        forEach_listener H ev d post
          ((forEach_listener H ev d pre (e\<lparr>emitted := emitted e @ [(ev, d)]\<rparr>))
             \<lparr>world := w,
              invoked := invoked e @ map (\<lambda>cb. (ev, cb, d)) pre @ [(ev, cb, d)],
              console := console (forEach_listener H ev d pre (e\<lparr>emitted := emitted e @ [(ev, d)]\<rparr>))
                 @ [''Error in WebSocket listener for '' @ ev @ '': '' @ err]\<rparr>) \<and>
      invoked (emit H s ev d e) =
        invoked e @ map (\<lambda>cb. (ev, cb, d)) pre @ (ev, cb, d) # map (\<lambda>cb. (ev, cb, d)) post"
    if h: "cbs = pre @ cb # post \<and>
      H cb d (world (forEach_listener H ev d pre (e\<lparr>emitted := emitted e @ [(ev, d)]\<rparr>))) = Threw w err"
    for pre cb post w err
  proof -
    from h have 1: "cbs = pre @ cb # post" by simp
    from h have 2: "H cb d (world (forEach_listener H ev d pre (e\<lparr>emitted := emitted e @ [(ev, d)]\<rparr>))) = Threw w err"
      by simp
    have "emit H s ev d e = forEach_listener H ev d post
        (call_listener H ev d cb (forEach_listener H ev d pre (e\<lparr>emitted := emitted e @ [(ev, d)]\<rparr>)))"
      by (simp add: emit_def l 1 forEach_listener_append)
    moreover have "call_listener H ev d cb (forEach_listener H ev d pre (e\<lparr>emitted := emitted e @ [(ev, d)]\<rparr>)) =
        (forEach_listener H ev d pre (e\<lparr>emitted := emitted e @ [(ev, d)]\<rparr>))
             \<lparr>world := w,
              invoked := invoked e @ map (\<lambda>cb. (ev, cb, d)) pre @ [(ev, cb, d)],
              console := console (forEach_listener H ev d pre (e\<lparr>emitted := emitted e @ [(ev, d)]\<rparr>))
                 @ [''Error in WebSocket listener for '' @ ev @ '': '' @ err]\<rparr>"
      by (simp add: call_listener_def 2 forEach_listener_invoked)
    ultimately show ?thesis using a 1 by simp
  qed
  from a b c show ?thesis by blast
qed

theorem emit_every_listener_witness:
  "listeners (fst (run counting [Subscribe ''x'' 12, Subscribe ''x'' 13, Subscribe ''x'' 14] (constructor, env0))) ''x''
     = Some [12, 13, 14] \<and>
   invoked (emit counting
      (fst (run counting [Subscribe ''x'' 12, Subscribe ''x'' 13, Subscribe ''x'' 14] (constructor, env0)))
      ''x'' JNull env0) = [(''x'', 12, JNull), (''x'', 13, JNull), (''x'', 14, JNull)] \<and>
   world (emit counting
      (fst (run counting [Subscribe ''x'' 12, Subscribe ''x'' 13, Subscribe ''x'' 14] (constructor, env0)))
      ''x'' JNull env0) = 3 \<and>
   console (emit counting
      (fst (run counting [Subscribe ''x'' 12, Subscribe ''x'' 13, Subscribe ''x'' 14] (constructor, env0)))
      ''x'' JNull env0) = [''Error in WebSocket listener for x: boom'']"
proof -
  have l: "listeners (fst (run counting [Subscribe ''x'' 12, Subscribe ''x'' 13, Subscribe ''x'' 14] (constructor, env0))) ''x''
     = Some [12, 13, 14]"
    by (simp add: subscribe_def constructor_def set_add_def)
  have c: "console (emit counting
      (fst (run counting [Subscribe ''x'' 12, Subscribe ''x'' 13, Subscribe ''x'' 14] (constructor, env0)))
      ''x'' JNull env0) = [''Error in WebSocket listener for x: boom'']"
    unfolding emit_def l by (simp add: call_listener_def counting_def env0_def)
  from l c emit_every_listener [OF l, of counting JNull env0] show ?thesis
    by (simp add: counting_def env0_def)
qed

lemma set_add_idem: "set_add x (set_add x xs) = set_add x xs"
  by (simp add: set_add_def)

lemma set_add_mem: "x \<in> set (set_add x xs)"
  by (simp add: set_add_def)

lemma set_add_distinct: "distinct xs \<Longrightarrow> distinct (set_add x xs)"
  by (simp add: set_add_def)

lemma set_delete_filter: "set_delete x xs = filter (\<lambda>c. c \<noteq> x) xs"
  by (induction xs) (simp_all add: set_delete_def)

lemma set_delete_distinct: "distinct xs \<Longrightarrow> distinct (set_delete x xs)"
  by (simp add: set_delete_filter)

lemma set_delete_idem: "set_delete x (set_delete x xs) = set_delete x xs"
  by (simp add: set_delete_filter)

lemma unsubscribe_listeners:
  "listeners (unsubscribe ev cb s) ev' =
     (if ev' = ev then map_option (filter (\<lambda>c. c \<noteq> cb)) (listeners s ev) else listeners s ev')"
  by (simp add: unsubscribe_def set_delete_filter split: option.splits)

lemma unsubscribe_rest: "unsubscribe ev cb s = s\<lparr>listeners := listeners (unsubscribe ev cb s)\<rparr>"
  by (simp add: unsubscribe_def split: option.splits)

lemma unsubscribe_idem: "unsubscribe ev cb (unsubscribe ev cb s) = unsubscribe ev cb s"
  by (simp add: unsubscribe_def set_delete_idem split: option.splits)

lemma emit_new_invocations:
  "drop (length (invoked e)) (invoked (emit H s ev d e)) =
     map (\<lambda>cb. (ev, cb, d)) (case listeners s ev of None \<Rightarrow> [] | Some cbs \<Rightarrow> cbs)"
  by (simp add: emit_invoked)

lemma subscribe_registered:
  "\<exists>cbs. listeners (fst (subscribe ev cb s)) ev = Some cbs \<and> cb \<in> set cbs"
  by (simp add: subscribe_def Let_def set_add_mem)

text \<open>
  C7. The function returned by \<^verbatim>\<open>subscribe(event, callback)\<close>, called on the service in
  any later state, takes exactly that callback out of the listeners of that event: the
  other listeners of the event stay, in their order, and the listeners of other events
  and all other fields are untouched. An emission of the event right after it does not
  call the callback. Calling the function a second time changes nothing.
\<close>

theorem unsubscribe_exactly_one:
  "subscribe ev cb s = (s1, u) \<Longrightarrow>
   (\<exists>cbs. listeners s1 ev = Some cbs \<and> cb \<in> set cbs) \<and>
   (\<forall>s'.
      listeners (call_unsub u s') ev = map_option (filter (\<lambda>c. c \<noteq> cb)) (listeners s' ev) \<and>
      (\<forall>ev'. ev' \<noteq> ev \<longrightarrow> listeners (call_unsub u s') ev' = listeners s' ev') \<and>
      call_unsub u s' = s'\<lparr>listeners := listeners (call_unsub u s')\<rparr> \<and>
      (\<forall>(H :: 'w handlers) d e. \<forall>x \<in> set (drop (length (invoked e)) (invoked (emit H (call_unsub u s') ev d e))).
         fst (snd x) \<noteq> cb) \<and>
      call_unsub u (call_unsub u s') = call_unsub u s')"
proof -
  assume a: "subscribe ev cb s = (s1, u)"
  then have u: "u = (ev, cb)" and s1: "s1 = fst (subscribe ev cb s)"
    by (auto simp: subscribe_def Let_def)
  have reg: "\<exists>cbs. listeners s1 ev = Some cbs \<and> cb \<in> set cbs"
    unfolding s1 by (rule subscribe_registered)
  have later: "listeners (call_unsub u s') ev = map_option (filter (\<lambda>c. c \<noteq> cb)) (listeners s' ev) \<and>
      (\<forall>ev'. ev' \<noteq> ev \<longrightarrow> listeners (call_unsub u s') ev' = listeners s' ev') \<and>
      call_unsub u s' = s'\<lparr>listeners := listeners (call_unsub u s')\<rparr> \<and>
      (\<forall>(H :: 'w handlers) d e. \<forall>x \<in> set (drop (length (invoked e)) (invoked (emit H (call_unsub u s') ev d e))).
         fst (snd x) \<noteq> cb) \<and>
      call_unsub u (call_unsub u s') = call_unsub u s'" for s'
  proof -
    have 1: "listeners (call_unsub u s') ev = map_option (filter (\<lambda>c. c \<noteq> cb)) (listeners s' ev)"
      by (simp add: call_unsub_def u unsubscribe_listeners)
    have 2: "\<forall>ev'. ev' \<noteq> ev \<longrightarrow> listeners (call_unsub u s') ev' = listeners s' ev'"
      by (simp add: call_unsub_def u unsubscribe_listeners)
    have 3: "call_unsub u s' = s'\<lparr>listeners := listeners (call_unsub u s')\<rparr>"
      unfolding call_unsub_def by (rule unsubscribe_rest)
    have 4: "\<forall>x \<in> set (drop (length (invoked e)) (invoked (emit H (call_unsub u s') ev d e))).
         fst (snd x) \<noteq> cb" for H :: "'w handlers" and d e
      by (cases "listeners s' ev") (auto simp: emit_new_invocations 1)
    have 5: "call_unsub u (call_unsub u s') = call_unsub u s'"
      by (simp add: call_unsub_def unsubscribe_idem)
    from 1 2 3 4 5 show ?thesis by blast
  qed
  from reg later show ?thesis by blast
qed

theorem unsubscribe_exactly_one_witness:
  "subscribe ''x'' 12 (fst (subscribe ''x'' 11 constructor)) =
     (fst (subscribe ''x'' 12 (fst (subscribe ''x'' 11 constructor))), (''x'', 12)) \<and>
   listeners (fst (subscribe ''x'' 14 (fst (subscribe ''x'' 12 (fst (subscribe ''x'' 11 constructor)))))) ''x''
     = Some [11, 12, 14] \<and>
   listeners (call_unsub (''x'', 12)
       (fst (subscribe ''x'' 14 (fst (subscribe ''x'' 12 (fst (subscribe ''x'' 11 constructor))))))) ''x''
     = Some [11, 14] \<and>
   invoked (emit counting (call_unsub (''x'', 12)
       (fst (subscribe ''x'' 14 (fst (subscribe ''x'' 12 (fst (subscribe ''x'' 11 constructor)))))))
       ''x'' JNull env0) = [(''x'', 11, JNull), (''x'', 14, JNull)]"
proof -
  let ?S = "fst (subscribe ''x'' 14 (fst (subscribe ''x'' 12 (fst (subscribe ''x'' 11 constructor)))))"
  have h: "subscribe ''x'' 12 (fst (subscribe ''x'' 11 constructor)) =
     (fst (subscribe ''x'' 12 (fst (subscribe ''x'' 11 constructor))), (''x'', 12))"
    by (simp add: subscribe_def Let_def)
  have l: "listeners ?S ''x'' = Some [11, 12, 14]"
    by (simp add: subscribe_def constructor_def set_add_def)
  from unsubscribe_exactly_one [OF h]
  have "listeners (call_unsub (''x'', 12) ?S) ''x'' =
      map_option (filter (\<lambda>c. c \<noteq> 12)) (listeners ?S ''x'')"
    by blast
  then have r: "listeners (call_unsub (''x'', 12) ?S) ''x'' = Some [11, 14]"
    unfolding l by simp
  have i: "invoked (emit counting (call_unsub (''x'', 12) ?S) ''x'' JNull env0)
      = [(''x'', 11, JNull), (''x'', 14, JNull)]"
    unfolding emit_invoked r by (simp add: env0_def)
  from h l r i show ?thesis by blast
qed

lemma listeners_ok_constructor: "listeners_ok constructor"
  by (simp add: listeners_ok_def constructor_def)

lemma listeners_ok_subscribe: "listeners_ok s \<Longrightarrow> listeners_ok (fst (subscribe ev cb s))"
  by (auto simp: listeners_ok_def subscribe_def Let_def set_add_distinct split: option.splits)

lemma listeners_ok_unsubscribe: "listeners_ok s \<Longrightarrow> listeners_ok (unsubscribe ev cb s)"
  by (auto simp: listeners_ok_def unsubscribe_def set_delete_distinct split: option.splits if_splits)

lemma stopPingInterval_listeners [simp]: "listeners (stopPingInterval s) = listeners s"
  by (simp add: stopPingInterval_def)

lemma scheduleReconnect_listeners [simp]: "listeners (fst (scheduleReconnect H se)) = listeners (fst se)"
  by (simp add: scheduleReconnect_def Let_def)

lemma connect_listeners [simp]: "listeners (fst (connect H tok th se)) = listeners (fst se)"
  by (simp add: connect_def Let_def)

lemma onopen_listeners [simp]: "listeners (fst (onopen H se)) = listeners (fst se)"
  by (simp add: onopen_def Let_def startPingInterval_def)

lemma onclose_listeners [simp]: "listeners (fst (onclose H c r se)) = listeners (fst se)"
  by (simp add: onclose_def Let_def)

lemma onerror_listeners [simp]: "listeners (fst (onerror H err se)) = listeners (fst se)"
  by (simp add: onerror_def)

lemma timer_fired_listeners [simp]: "listeners (fst (timer_fired H th se)) = listeners (fst se)"
  by (simp add: timer_fired_def split: list.splits)

lemma disconnect_listeners [simp]: "listeners (fst (disconnect se)) = Map.empty"
  by (simp add: disconnect_def Let_def)

lemma listeners_ok_step: "listeners_ok (fst se) \<Longrightarrow> listeners_ok (fst (step H ev se))"
proof (cases ev)
  case (Subscribe e c)
  assume "listeners_ok (fst se)"
  then show ?thesis using Subscribe by (simp add: listeners_ok_subscribe)
next
  case (Unsubscribe e c)
  assume "listeners_ok (fst se)"
  then show ?thesis using Unsubscribe by (simp add: listeners_ok_unsubscribe)
qed (simp_all add: listeners_ok_def)

lemma listeners_ok_run: "listeners_ok (fst se) \<Longrightarrow> listeners_ok (fst (run H evs se))"
  by (induction evs arbitrary: se) (simp_all add: listeners_ok_step)

lemma count_list_map_inj:
  "count_list (map (\<lambda>cb. (ev, cb, d)) cbs) (ev, c, d) = count_list cbs c"
  by (induction cbs) simp_all

lemma count_list_distinct: "distinct xs \<Longrightarrow> count_list xs x = (if x \<in> set xs then 1 else 0)"
  by (induction xs) auto

lemma subscribe_twice: "fst (subscribe ev cb (fst (subscribe ev cb s))) = fst (subscribe ev cb s)"
  by (simp add: subscribe_def Let_def set_add_idem)

text \<open>
  C10. In every state the service reaches from its constructor, subscribing a callback
  for an event a second time leaves the service as the first subscription left it: the
  callback is held once, an emission of the event calls it exactly once, and one call of
  the returned unsubscribe function takes it out, after which an emission does not call
  it.
\<close>

theorem subscribe_same_callback_once:
  "s = fst (run H0 evs (constructor, e0)) \<Longrightarrow>
   fst (subscribe ev cb (fst (subscribe ev cb s))) = fst (subscribe ev cb s) \<and>
   (\<exists>cbs. listeners (fst (subscribe ev cb (fst (subscribe ev cb s)))) ev = Some cbs \<and>
      count_list cbs cb = 1) \<and>
   (\<forall>(H :: 'w handlers) d e. count_list (drop (length (invoked e))
        (invoked (emit H (fst (subscribe ev cb (fst (subscribe ev cb s)))) ev d e))) (ev, cb, d) = 1) \<and>
   (\<exists>cbs. listeners (call_unsub (snd (subscribe ev cb s))
        (fst (subscribe ev cb (fst (subscribe ev cb s))))) ev = Some cbs \<and> cb \<notin> set cbs) \<and>
   (\<forall>(H :: 'w handlers) d e. count_list (drop (length (invoked e))
        (invoked (emit H (call_unsub (snd (subscribe ev cb s))
           (fst (subscribe ev cb (fst (subscribe ev cb s))))) ev d e))) (ev, cb, d) = 0)"
proof -
  assume r: "s = fst (run H0 evs (constructor, e0))"
  have ok: "listeners_ok s"
    unfolding r by (rule listeners_ok_run) (simp add: listeners_ok_constructor)
  then have ok1: "listeners_ok (fst (subscribe ev cb s))"
    by (rule listeners_ok_subscribe)
  obtain cbs where cbs: "listeners (fst (subscribe ev cb s)) ev = Some cbs" "cb \<in> set cbs"
    using subscribe_registered by blast
  from ok1 cbs have d: "distinct cbs" by (simp add: listeners_ok_def)
  have one: "count_list cbs cb = 1"
    using d cbs by (simp add: count_list_distinct)
  have a: "fst (subscribe ev cb (fst (subscribe ev cb s))) = fst (subscribe ev cb s)"
    by (rule subscribe_twice)
  have b: "\<exists>cbs. listeners (fst (subscribe ev cb (fst (subscribe ev cb s)))) ev = Some cbs \<and>
      count_list cbs cb = 1"
    using a cbs one by simp
  have c: "count_list (drop (length (invoked e))
        (invoked (emit H (fst (subscribe ev cb (fst (subscribe ev cb s)))) ev d e))) (ev, cb, d) = 1"
    for H :: "'w handlers" and d e
    by (simp add: a emit_new_invocations cbs count_list_map_inj one)
  have u: "snd (subscribe ev cb s) = (ev, cb)"
    by (simp add: subscribe_def Let_def)
  have l: "listeners (call_unsub (snd (subscribe ev cb s))
        (fst (subscribe ev cb (fst (subscribe ev cb s))))) ev = Some (filter (\<lambda>c. c \<noteq> cb) cbs)"
    by (simp add: a u call_unsub_def unsubscribe_listeners cbs)
  have e: "\<exists>cbs. listeners (call_unsub (snd (subscribe ev cb s))
        (fst (subscribe ev cb (fst (subscribe ev cb s))))) ev = Some cbs \<and> cb \<notin> set cbs"
    using l by simp
  have f: "count_list (drop (length (invoked e))
        (invoked (emit H (call_unsub (snd (subscribe ev cb s))
           (fst (subscribe ev cb (fst (subscribe ev cb s))))) ev d e))) (ev, cb, d) = 0"
    for H :: "'w handlers" and d e
    by (simp add: emit_new_invocations l count_list_map_inj count_list_0_iff)
  from a b c e f show ?thesis by blast
qed

theorem subscribe_same_callback_once_witness:
  "listeners (fst (subscribe ''x'' 12 (fst (subscribe ''x'' 12
      (fst (run counting [Subscribe ''x'' 11] (constructor, env0))))))) ''x''
     = Some [11, 12] \<and>
   invoked (emit counting
      (fst (subscribe ''x'' 12 (fst (subscribe ''x'' 12
        (fst (run counting [Subscribe ''x'' 11] (constructor, env0)))))))
      ''x'' JNull env0) = [(''x'', 11, JNull), (''x'', 12, JNull)] \<and>
   listeners (call_unsub (''x'', 12)
      (fst (subscribe ''x'' 12 (fst (subscribe ''x'' 12
        (fst (run counting [Subscribe ''x'' 11] (constructor, env0)))))))) ''x''
     = Some [11]"
proof -
  let ?s = "fst (run counting [Subscribe ''x'' 11] (constructor, env0))"
  have l: "listeners (fst (subscribe ''x'' 12 ?s)) ''x'' = Some [11, 12]"
    by (simp add: subscribe_def constructor_def set_add_def)
  from subscribe_same_callback_once
    [where s = ?s and ?H0.0 = counting and evs = "[Subscribe ''x'' 11]" and ?e0.0 = env0
       and ev = "''x''" and cb = 12, OF refl]
  have a: "fst (subscribe ''x'' 12 (fst (subscribe ''x'' 12 ?s))) = fst (subscribe ''x'' 12 ?s)"
    by blast
  have u: "listeners (call_unsub (''x'', 12) (fst (subscribe ''x'' 12 ?s))) ''x'' = Some [11]"
    unfolding call_unsub_def fst_conv snd_conv unsubscribe_listeners l by simp
  have i: "invoked (emit counting (fst (subscribe ''x'' 12 ?s)) ''x'' JNull env0)
      = [(''x'', 11, JNull), (''x'', 12, JNull)]"
    unfolding emit_invoked l by (simp add: env0_def)
  show ?thesis
    unfolding a using l u i by blast
qed

section \<open>Properties of the transport\<close>

lemma scheduleReconnect_exhausted:
  "maxReconnectAttempts s \<le> reconnectAttempts s \<Longrightarrow>
   scheduleReconnect H (s, e) =
     (s, emit H s ''max_reconnect_attempts'' (JObj [])
           (e\<lparr>console := console e @ [''Max reconnection attempts reached'']\<rparr>))"
  by (simp add: scheduleReconnect_def)

lemma scheduleReconnect_schedules:
  "reconnectAttempts s < maxReconnectAttempts s \<Longrightarrow>
   scheduleReconnect H (s, e) =
     (s\<lparr>reconnectAttempts := reconnectAttempts s + 1\<rparr>,
      e\<lparr>console := console e @ [''Scheduling reconnect attempt''],
        scheduled := scheduled e @ [reconnectDelay s * 2 ^ reconnectAttempts s],
        timers := timers e @ [reconnectDelay s * 2 ^ reconnectAttempts s]\<rparr>)"
  by (simp add: scheduleReconnect_def Let_def)

lemma within_budget_refl:
  "reconnectAttempts (fst se) \<le> maxReconnectAttempts (fst se) \<Longrightarrow> within_budget se se"
  by (simp add: within_budget_def)

lemma within_budget_trans:
  assumes "within_budget a b" "within_budget b c"
  shows "within_budget a c"
proof -
  have le: "reconnectAttempts (fst a) \<le> reconnectAttempts (fst b)"
    "reconnectAttempts (fst b) \<le> reconnectAttempts (fst c)"
    using assms by (simp_all add: within_budget_def)
  have "[reconnectAttempts (fst a) ..< reconnectAttempts (fst c)] =
      [reconnectAttempts (fst a) ..< reconnectAttempts (fst b)] @
      [reconnectAttempts (fst b) ..< reconnectAttempts (fst c)]"
    using le upt_add_eq_append [of "reconnectAttempts (fst a)" "reconnectAttempts (fst b)"
        "reconnectAttempts (fst c) - reconnectAttempts (fst b)"]
    by simp
  then show ?thesis
    using assms by (simp add: within_budget_def)
qed

lemma within_budget_scheduleReconnect:
  "reconnectAttempts (fst se) \<le> maxReconnectAttempts (fst se) \<Longrightarrow>
   within_budget se (scheduleReconnect H se)"
  by (cases se) (simp add: within_budget_def scheduleReconnect_def Let_def emit_frame)

lemma within_budget_connect:
  "reconnectAttempts (fst se) \<le> maxReconnectAttempts (fst se) \<Longrightarrow>
   within_budget se (connect H tok th se)"
  by (cases se) (simp add: within_budget_def connect_def scheduleReconnect_def Let_def emit_frame)

lemma stopPingInterval_fields [simp]:
  "reconnectAttempts (stopPingInterval s) = reconnectAttempts s"
  "maxReconnectAttempts (stopPingInterval s) = maxReconnectAttempts s"
  "reconnectDelay (stopPingInterval s) = reconnectDelay s"
  "isConnected (stopPingInterval s) = isConnected s"
  "token (stopPingInterval s) = token s"
  "ws (stopPingInterval s) = ws s"
  by (simp_all add: stopPingInterval_def)

lemma within_budget_onclose:
  "reconnectAttempts (fst se) \<le> maxReconnectAttempts (fst se) \<Longrightarrow>
   within_budget se (onclose H c r se)"
  by (cases se) (simp add: within_budget_def onclose_def scheduleReconnect_def Let_def emit_frame)

lemma within_budget_onerror:
  "reconnectAttempts (fst se) \<le> maxReconnectAttempts (fst se) \<Longrightarrow>
   within_budget se (onerror H err se)"
  by (simp add: within_budget_def onerror_def emit_frame)

lemma within_budget_timer_fired:
  "reconnectAttempts (fst se) \<le> maxReconnectAttempts (fst se) \<Longrightarrow>
   within_budget se (timer_fired H th se)"
  by (cases se)
    (simp add: within_budget_def timer_fired_def connect_def scheduleReconnect_def Let_def
      emit_frame split: list.splits)

lemma within_budget_disconnect:
  "reconnectAttempts (fst se) \<le> maxReconnectAttempts (fst se) \<Longrightarrow>
   within_budget se (disconnect se)"
  by (simp add: within_budget_def disconnect_def Let_def)

lemma within_budget_step:
  "ev \<noteq> Open \<Longrightarrow> reconnectAttempts (fst se) \<le> maxReconnectAttempts (fst se) \<Longrightarrow>
   within_budget se (step H ev se)"
  by (cases ev)
    (simp_all add: within_budget_connect within_budget_onclose within_budget_onerror
      within_budget_timer_fired within_budget_disconnect,
     simp_all add: within_budget_def subscribe_def unsubscribe_def Let_def split: option.splits)

lemma within_budget_run:
  "Open \<notin> set evs \<Longrightarrow> reconnectAttempts (fst se) \<le> maxReconnectAttempts (fst se) \<Longrightarrow>
   within_budget se (run H evs se)"
proof (induction evs arbitrary: se)
  case Nil
  then show ?case by (simp add: within_budget_refl)
next
  case (Cons ev evs)
  from Cons.prems have "ev \<noteq> Open" by auto
  with Cons.prems have 1: "within_budget se (step H ev se)"
    by (simp add: within_budget_step)
  then have "reconnectAttempts (fst (step H ev se)) \<le> maxReconnectAttempts (fst (step H ev se))"
    by (simp add: within_budget_def)
  with Cons have 2: "within_budget (step H ev se) (run H evs (step H ev se))"
    by simp
  from 1 2 show ?case by (simp add: within_budget_trans)
qed

lemma run_append: "run H (xs @ ys) se = run H ys (run H xs se)"
  by (induction xs arbitrary: se) simp_all

lemma failures_append: "failures (xs @ ys) = failures xs @ failures ys"
  by (induction xs) auto

lemma one_failure:
  assumes "fst c \<noteq> 1000" "timers e = []" "reconnectAttempts s < maxReconnectAttempts s"
  shows "reconnectAttempts (fst (run H (failures [c]) (s, e))) = reconnectAttempts s + 1"
    and "maxReconnectAttempts (fst (run H (failures [c]) (s, e))) = maxReconnectAttempts s"
    and "reconnectDelay (fst (run H (failures [c]) (s, e))) = reconnectDelay s"
    and "timers (snd (run H (failures [c]) (s, e))) = []"
    and "scheduled (snd (run H (failures [c]) (s, e))) =
           scheduled e @ [reconnectDelay s * 2 ^ reconnectAttempts s]"
    and "emitted (snd (run H (failures [c]) (s, e))) = emitted e @ [disconnected c]"
    and "filter is_New (sockets (snd (run H (failures [c]) (s, e)))) =
           filter is_New (sockets e) @ [New (wsUrl (secure e) (host e) (token s))]"
  using assms
  by (cases c; simp add: onclose_def scheduleReconnect_def timer_fired_def connect_def Let_def
      emit_frame disconnected_def)+

lemma upt_from: "[a ..< a + Suc n] = a # [Suc a ..< Suc a + n]"
  by (simp add: upt_conv_Cons del: upt_Suc)

lemma failures_run:
  assumes "\<forall>c \<in> set cs. fst c \<noteq> 1000" "timers e = []"
    "reconnectAttempts s + length cs \<le> maxReconnectAttempts s"
  shows "reconnectAttempts (fst (run H (failures cs) (s, e))) = reconnectAttempts s + length cs \<and>
    maxReconnectAttempts (fst (run H (failures cs) (s, e))) = maxReconnectAttempts s \<and>
    reconnectDelay (fst (run H (failures cs) (s, e))) = reconnectDelay s \<and>
    timers (snd (run H (failures cs) (s, e))) = [] \<and>
    scheduled (snd (run H (failures cs) (s, e))) =
      scheduled e @ map (\<lambda>k. reconnectDelay s * 2 ^ k)
        [reconnectAttempts s ..< reconnectAttempts s + length cs] \<and>
    emitted (snd (run H (failures cs) (s, e))) = emitted e @ map disconnected cs \<and>
    length (filter is_New (sockets (snd (run H (failures cs) (s, e))))) =
      length (filter is_New (sockets e)) + length cs"
  using assms
proof (induction cs arbitrary: s e)
  case Nil
  then show ?case by simp
next
  case (Cons c cs)
  let ?se = "run H (failures [c]) (s, e)"
  have c: "fst c \<noteq> 1000" and lt: "reconnectAttempts s < maxReconnectAttempts s"
    using Cons.prems by auto
  note one = one_failure [OF c Cons.prems(2) lt, of H]
  have split: "run H (failures (c # cs)) (s, e) = run H (failures cs) (fst ?se, snd ?se)"
    using run_append [of H "failures [c]" "failures cs" "(s, e)"]
      failures_append [of "[c]" cs]
    by simp
  have ih: "reconnectAttempts (fst (run H (failures cs) (fst ?se, snd ?se))) =
      reconnectAttempts (fst ?se) + length cs \<and>
    maxReconnectAttempts (fst (run H (failures cs) (fst ?se, snd ?se))) = maxReconnectAttempts (fst ?se) \<and>
    reconnectDelay (fst (run H (failures cs) (fst ?se, snd ?se))) = reconnectDelay (fst ?se) \<and>
    timers (snd (run H (failures cs) (fst ?se, snd ?se))) = [] \<and>
    scheduled (snd (run H (failures cs) (fst ?se, snd ?se))) =
      scheduled (snd ?se) @ map (\<lambda>k. reconnectDelay (fst ?se) * 2 ^ k)
        [reconnectAttempts (fst ?se) ..< reconnectAttempts (fst ?se) + length cs] \<and>
    emitted (snd (run H (failures cs) (fst ?se, snd ?se))) = emitted (snd ?se) @ map disconnected cs \<and>
    length (filter is_New (sockets (snd (run H (failures cs) (fst ?se, snd ?se))))) =
      length (filter is_New (sockets (snd ?se))) + length cs"
  proof (rule Cons.IH)
    show "\<forall>c \<in> set cs. fst c \<noteq> 1000" using Cons.prems by simp
    show "timers (snd ?se) = []" by (rule one)
    show "reconnectAttempts (fst ?se) + length cs \<le> maxReconnectAttempts (fst ?se)"
      using Cons.prems(3) by (simp add: one)
  qed
  have upt: "[reconnectAttempts s ..< reconnectAttempts s + length (c # cs)] =
      reconnectAttempts s # [reconnectAttempts s + 1 ..< reconnectAttempts s + 1 + length cs]"
    using upt_from [of "reconnectAttempts s" "length cs"] by simp
  show ?case
    unfolding split upt using ih by (simp add: one)
qed

lemma close_exhausted:
  assumes "maxReconnectAttempts s \<le> reconnectAttempts s" "c \<noteq> 1000"
  shows "emitted (snd (onclose H c r (s, e))) =
           emitted e @ [disconnected (c, r), (''max_reconnect_attempts'', JObj [])]"
    and "scheduled (snd (onclose H c r (s, e))) = scheduled e"
    and "timers (snd (onclose H c r (s, e))) = timers e"
    and "sockets (snd (onclose H c r (s, e))) = sockets e"
    and "reconnectAttempts (fst (onclose H c r (s, e))) = reconnectAttempts s"
    and "maxReconnectAttempts (fst (onclose H c r (s, e))) = maxReconnectAttempts s"
  using assms
  by (simp_all add: onclose_def scheduleReconnect_def Let_def emit_frame disconnected_def)

lemma connect_throws_exhausted:
  assumes "maxReconnectAttempts s \<le> reconnectAttempts s"
  shows "emitted (snd (connect H tok True (s, e))) =
           emitted e @ [(''max_reconnect_attempts'', JObj [])]"
    and "scheduled (snd (connect H tok True (s, e))) = scheduled e"
    and "timers (snd (connect H tok True (s, e))) = timers e"
    and "filter is_New (sockets (snd (connect H tok True (s, e)))) = filter is_New (sockets e)"
    and "reconnectAttempts (fst (connect H tok True (s, e))) = reconnectAttempts s"
  using assms
  by (simp_all add: connect_def scheduleReconnect_def Let_def emit_frame)

lemma connect_ok_fields:
  "reconnectAttempts (fst (connect H tok False se)) = reconnectAttempts (fst se)"
  "maxReconnectAttempts (fst (connect H tok False se)) = maxReconnectAttempts (fst se)"
  "emitted (snd (connect H tok False se)) = emitted (snd se)"
  "scheduled (snd (connect H tok False se)) = scheduled (snd se)"
  "timers (snd (connect H tok False se)) = timers (snd se)"
  by (simp_all add: connect_def Let_def)

lemma attempts_mono_step:
  "ev \<noteq> Open \<Longrightarrow>
   reconnectAttempts (fst se) \<le> reconnectAttempts (fst (step H ev se)) \<and>
   maxReconnectAttempts (fst (step H ev se)) = maxReconnectAttempts (fst se)"
  by (cases ev; cases se)
    (simp_all add: connect_def onclose_def onerror_def timer_fired_def disconnect_def
      scheduleReconnect_def subscribe_def unsubscribe_def Let_def
      split: list.splits option.splits)

lemma exhausted_run:
  "Open \<notin> set evs \<Longrightarrow> maxReconnectAttempts (fst se) \<le> reconnectAttempts (fst se) \<Longrightarrow>
   maxReconnectAttempts (fst (run H evs se)) \<le> reconnectAttempts (fst (run H evs se))"
proof (induction evs arbitrary: se)
  case Nil
  then show ?case by simp
next
  case (Cons ev evs)
  from Cons.prems have "ev \<noteq> Open" by auto
  from attempts_mono_step [OF this, of se H] Cons.prems(2)
  have "maxReconnectAttempts (fst (step H ev se)) \<le> reconnectAttempts (fst (step H ev se))"
    by simp
  with Cons show ?case by simp
qed

lemma idle_step:
  assumes "\<not> is_Connect ev" "ev \<noteq> Open"
    "maxReconnectAttempts (fst se) \<le> reconnectAttempts (fst se)" "timers (snd se) = []"
  shows "maxReconnectAttempts (fst (step H ev se)) \<le> reconnectAttempts (fst (step H ev se)) \<and>
    timers (snd (step H ev se)) = [] \<and>
    scheduled (snd (step H ev se)) = scheduled (snd se) \<and>
    filter is_New (sockets (snd (step H ev se))) = filter is_New (sockets (snd se))"
  using assms
  by (cases ev; cases se)
    (simp_all add: onclose_def onerror_def timer_fired_def disconnect_def
      scheduleReconnect_def subscribe_def unsubscribe_def Let_def emit_frame
      split: option.splits)

lemma idle_run:
  assumes "\<forall>ev \<in> set evs. \<not> is_Connect ev \<and> ev \<noteq> Open"
    "maxReconnectAttempts (fst se) \<le> reconnectAttempts (fst se)" "timers (snd se) = []"
  shows "timers (snd (run H evs se)) = [] \<and>
    scheduled (snd (run H evs se)) = scheduled (snd se) \<and>
    filter is_New (sockets (snd (run H evs se))) = filter is_New (sockets (snd se))"
  using assms
proof (induction evs arbitrary: se)
  case Nil
  then show ?case by simp
next
  case (Cons ev evs)
  have ev: "\<not> is_Connect ev" "ev \<noteq> Open" using Cons.prems(1) by simp_all
  note st = idle_step [OF ev Cons.prems(2) Cons.prems(3), of H]
  have "timers (snd (run H evs (step H ev se))) = [] \<and>
    scheduled (snd (run H evs (step H ev se))) = scheduled (snd (step H ev se)) \<and>
    filter is_New (sockets (snd (run H evs (step H ev se)))) =
      filter is_New (sockets (snd (step H ev se)))"
    using Cons.prems(1) st by (intro Cons.IH) simp_all
  with st show ?case by simp
qed

lemma upt_pred: "map (\<lambda>n. f (n - 1)) [Suc a ..< Suc b] = map f [a ..< b]"
proof -
  have "map (\<lambda>n. f (n - 1)) (map Suc [a ..< b]) = map f [a ..< b]"
    by (simp add: comp_def)
  then show ?thesis by (simp only: map_Suc_upt)
qed

lemma backoff_increasing: "sorted_wrt (<) (map (\<lambda>k. 1000 * 2 ^ k) [a..<b] :: nat list)"
proof -
  have "sorted_wrt (\<lambda>x y. (1000 * 2 ^ x :: nat) < 1000 * 2 ^ y) [a..<b]"
    by (rule sorted_wrt_mono_rel [of _ "(<)"]) simp_all
  then show ?thesis by (simp add: sorted_wrt_map)
qed

text \<open>
  C4. With the delay \<open>baseDelay * 2 ^ attemptCount\<close> taken at the incremented count,
  the first attempt would wait 2000; it waits 1000. What holds: a call of
  \<^verbatim>\<open>scheduleReconnect\<close> within the budget increments the count and gives
  \<^verbatim>\<open>setTimeout\<close> the delay \<open>reconnectDelay * 2 ^ (count - 1)\<close> for the incremented
  count, that is \<open>reconnectDelay * 2 ^ k\<close> after \<open>k\<close> earlier attempts; with the
  constructor's 1000 the \<open>n\<close>-th consecutive attempt waits \<open>1000 * 2 ^ (n - 1)\<close>.
\<close>

theorem reconnect_delay:
  "reconnectAttempts s < maxReconnectAttempts s \<Longrightarrow>
   reconnectAttempts (fst (scheduleReconnect H (s, e))) = reconnectAttempts s + 1 \<and>
   scheduled (snd (scheduleReconnect H (s, e))) =
     scheduled e @
       [reconnectDelay s * 2 ^ (reconnectAttempts (fst (scheduleReconnect H (s, e))) - 1)] \<and>
   timers (snd (scheduleReconnect H (s, e))) =
     timers e @
       [reconnectDelay s * 2 ^ (reconnectAttempts (fst (scheduleReconnect H (s, e))) - 1)] \<and>
   (\<forall>cs. reconnectAttempts s = 0 \<and> reconnectDelay s = 1000 \<and> timers e = [] \<and>
      (\<forall>c \<in> set cs. fst c \<noteq> 1000) \<and> length cs \<le> maxReconnectAttempts s \<longrightarrow>
      scheduled (snd (run H (failures cs) (s, e))) =
        scheduled e @ map (\<lambda>n. 1000 * 2 ^ (n - 1)) [1 ..< length cs + 1])"
proof -
  assume lt: "reconnectAttempts s < maxReconnectAttempts s"
  have a: "reconnectAttempts (fst (scheduleReconnect H (s, e))) = reconnectAttempts s + 1"
    by (simp add: scheduleReconnect_schedules [OF lt])
  have b: "scheduled (snd (scheduleReconnect H (s, e))) =
     scheduled e @
       [reconnectDelay s * 2 ^ (reconnectAttempts (fst (scheduleReconnect H (s, e))) - 1)]"
    by (simp add: scheduleReconnect_schedules [OF lt])
  have c: "timers (snd (scheduleReconnect H (s, e))) =
     timers e @
       [reconnectDelay s * 2 ^ (reconnectAttempts (fst (scheduleReconnect H (s, e))) - 1)]"
    by (simp add: scheduleReconnect_schedules [OF lt])
  have d: "scheduled (snd (run H (failures cs) (s, e))) =
        scheduled e @ map (\<lambda>n. 1000 * 2 ^ (n - 1)) [1 ..< length cs + 1]"
    if h: "reconnectAttempts s = 0 \<and> reconnectDelay s = 1000 \<and> timers e = [] \<and>
      (\<forall>c \<in> set cs. fst c \<noteq> 1000) \<and> length cs \<le> maxReconnectAttempts s" for cs
  proof -
    from h have "scheduled (snd (run H (failures cs) (s, e))) =
        scheduled e @ map (\<lambda>k. 1000 * 2 ^ k) [0 ..< length cs]"
      using failures_run [of cs e s H] by simp
    moreover have "map (\<lambda>n. 1000 * 2 ^ (n - 1)) [1 ..< length cs + 1] =
        map (\<lambda>k. (1000 :: nat) * 2 ^ k) [0 ..< length cs]"
      using upt_pred [of "\<lambda>k. (1000 :: nat) * 2 ^ k" 0 "length cs"] by simp
    ultimately show ?thesis by simp
  qed
  from a b c d show ?thesis by blast
qed

theorem reconnect_delay_witness:
  "reconnectAttempts constructor < maxReconnectAttempts constructor \<and>
   reconnectAttempts (fst (scheduleReconnect counting (constructor, env0))) = 1 \<and>
   scheduled (snd (scheduleReconnect counting (constructor, env0))) = [1000] \<and>
   scheduled (snd (run counting (failures [(1006, []), (1006, []), (1006, [])]) (constructor, env0)))
     = [1000, 2000, 4000]"
proof -
  let ?cs = "[(1006, []), (1006, []), (1006 :: int, [] :: string)]"
  have h: "reconnectAttempts constructor < maxReconnectAttempts constructor"
    by (simp add: constructor_def)
  have r: "reconnectAttempts constructor = 0" "reconnectDelay constructor = 1000"
    "scheduled env0 = []"
    by (simp_all add: constructor_def env0_def)
  have pre: "reconnectAttempts constructor = 0 \<and> reconnectDelay constructor = 1000 \<and>
      timers env0 = [] \<and> (\<forall>c \<in> set ?cs. fst c \<noteq> 1000) \<and>
      length ?cs \<le> maxReconnectAttempts constructor"
    by (simp add: constructor_def env0_def)
  note t = reconnect_delay [OF h, of counting env0]
  from t have a: "reconnectAttempts (fst (scheduleReconnect counting (constructor, env0))) = 1"
    unfolding r by simp
  from t have "scheduled (snd (scheduleReconnect counting (constructor, env0))) =
      scheduled env0 @ [reconnectDelay constructor *
        2 ^ (reconnectAttempts (fst (scheduleReconnect counting (constructor, env0))) - 1)]"
    by blast
  then have b: "scheduled (snd (scheduleReconnect counting (constructor, env0))) = [1000]"
    unfolding a r by simp
  from t pre have "scheduled (snd (run counting (failures ?cs) (constructor, env0))) =
      scheduled env0 @ map (\<lambda>n. 1000 * 2 ^ (n - 1)) [1 ..< length ?cs + 1]"
    by blast
  moreover have "map (\<lambda>n. (1000 :: nat) * 2 ^ (n - 1)) [1 ..< length ?cs + 1] = [1000, 2000, 4000]"
    by (simp add: upt_conv_Cons)
  ultimately have c: "scheduled (snd (run counting (failures ?cs) (constructor, env0))) =
      [1000, 2000, 4000]"
    unfolding r by simp
  from h a b c show ?thesis by blast
qed

theorem reconnect_delay_counterexample:
  "reconnectAttempts (fst (scheduleReconnect counting (constructor, env0))) = 1 \<and>
   reconnectDelay (fst (scheduleReconnect counting (constructor, env0))) = 1000 \<and>
   scheduled (snd (scheduleReconnect counting (constructor, env0))) = [1000] \<and>
   scheduled (snd (scheduleReconnect counting (constructor, env0))) \<noteq>
     [reconnectDelay (fst (scheduleReconnect counting (constructor, env0))) *
        2 ^ reconnectAttempts (fst (scheduleReconnect counting (constructor, env0)))]"
  by (simp add: scheduleReconnect_def constructor_def env0_def Let_def)

text \<open>
  C5. From a service whose attempt count is 0 (as the constructor and every successful
  open leave it), along any events that include no successful open, at most 5 timers are
  set and their delays are 1000, 2000, 4000, ... in this order, a strictly increasing
  sequence. Six connection failures in a row, each followed by the firing of the timer it
  set, set the five timers 1000, 2000, 4000, 8000, 16000 and make five new sockets; the
  sixth failure emits \<^verbatim>\<open>max_reconnect_attempts\<close> after its \<^verbatim>\<open>disconnected\<close> and
  sets no timer. Once the budget is used and no timer is pending, nothing but a call of
  \<^verbatim>\<open>connect\<close> (or a successful open) makes a socket or sets a timer again.
\<close>

theorem reconnect_budget:
  assumes "reconnectAttempts s = 0" "maxReconnectAttempts s = 5" "reconnectDelay s = 1000"
  shows "(\<forall>evs. Open \<notin> set evs \<longrightarrow>
      (\<exists>n \<le> 5. reconnectAttempts (fst (run H evs (s, e))) = n \<and>
         scheduled (snd (run H evs (s, e))) = scheduled e @ map (\<lambda>k. 1000 * 2 ^ k) [0 ..< n] \<and>
         sorted_wrt (<) (map (\<lambda>k. 1000 * 2 ^ k) [0 ..< n] :: nat list))) \<and>
   (\<forall>cs. length cs = 6 \<and> (\<forall>c \<in> set cs. fst c \<noteq> 1000) \<and> timers e = [] \<longrightarrow>
      scheduled (snd (run H (failures cs) (s, e))) =
        scheduled e @ [1000, 2000, 4000, 8000, 16000] \<and>
      emitted (snd (run H (failures cs) (s, e))) =
        emitted e @ map disconnected cs @ [(''max_reconnect_attempts'', JObj [])] \<and>
      timers (snd (run H (failures cs) (s, e))) = [] \<and>
      length (filter is_New (sockets (snd (run H (failures cs) (s, e))))) =
        length (filter is_New (sockets e)) + 5) \<and>
   (\<forall>evs s' e'. maxReconnectAttempts s' \<le> reconnectAttempts s' \<and> timers e' = [] \<and>
        (\<forall>ev \<in> set evs. \<not> is_Connect ev \<and> ev \<noteq> Open) \<longrightarrow>
      filter is_New (sockets (snd (run H evs (s', e')))) = filter is_New (sockets e') \<and>
      scheduled (snd (run H evs (s', e'))) = scheduled e' \<and>
      timers (snd (run H evs (s', e'))) = [])"
proof -
  have A: "\<exists>n \<le> 5. reconnectAttempts (fst (run H evs (s, e))) = n \<and>
         scheduled (snd (run H evs (s, e))) = scheduled e @ map (\<lambda>k. 1000 * 2 ^ k) [0 ..< n] \<and>
         sorted_wrt (<) (map (\<lambda>k. 1000 * 2 ^ k) [0 ..< n] :: nat list)"
    if "Open \<notin> set evs" for evs
  proof -
    have "within_budget (s, e) (run H evs (s, e))"
      using that assms by (intro within_budget_run) simp_all
    then show ?thesis
      using assms by (simp add: within_budget_def backoff_increasing)
  qed
  have B: "scheduled (snd (run H (failures cs) (s, e))) =
        scheduled e @ [1000, 2000, 4000, 8000, 16000] \<and>
      emitted (snd (run H (failures cs) (s, e))) =
        emitted e @ map disconnected cs @ [(''max_reconnect_attempts'', JObj [])] \<and>
      timers (snd (run H (failures cs) (s, e))) = [] \<and>
      length (filter is_New (sockets (snd (run H (failures cs) (s, e))))) =
        length (filter is_New (sockets e)) + 5"
    if h: "length cs = 6 \<and> (\<forall>c \<in> set cs. fst c \<noteq> 1000) \<and> timers e = []" for cs
  proof -
    from h obtain cs5 c6 where cs: "cs = cs5 @ [c6]" and l5: "length cs5 = 5"
      by (metis length_Suc_conv_rev eval_nat_numeral(2,3) semiring_norm(26,27,28) Suc_inject)
    let ?se = "run H (failures cs5) (s, e)"
    have five: "reconnectAttempts (fst ?se) = 5 \<and> maxReconnectAttempts (fst ?se) = 5 \<and>
      reconnectDelay (fst ?se) = 1000 \<and> timers (snd ?se) = [] \<and>
      scheduled (snd ?se) = scheduled e @ map (\<lambda>k. 1000 * 2 ^ k) [0 ..< 5] \<and>
      emitted (snd ?se) = emitted e @ map disconnected cs5 \<and>
      length (filter is_New (sockets (snd ?se))) = length (filter is_New (sockets e)) + 5"
      using failures_run [of cs5 e s H] h assms l5 cs by simp
    have u: "map (\<lambda>k. (1000 :: nat) * 2 ^ k) [0 ..< 5] = [1000, 2000, 4000, 8000, 16000]"
      by (simp add: upt_conv_Cons)
    have c6: "fst c6 \<noteq> 1000" using h cs by simp
    have last: "run H (failures cs) (s, e) =
        timer_fired H False (onclose H (fst c6) (snd c6) (fst ?se, snd ?se))"
      unfolding cs failures_append run_append by (cases c6) simp
    have ex: "maxReconnectAttempts (fst ?se) \<le> reconnectAttempts (fst ?se)"
      using five by simp
    note cl = close_exhausted [OF ex c6, of H "snd c6" "snd ?se"]
    have idle: "timer_fired H False (onclose H (fst c6) (snd c6) (fst ?se, snd ?se)) =
        onclose H (fst c6) (snd c6) (fst ?se, snd ?se)"
      using cl(3) five by (simp add: timer_fired_def)
    show ?thesis
      unfolding last idle using cl five u by (simp add: cs)
  qed
  have C: "filter is_New (sockets (snd (run H evs (s', e')))) = filter is_New (sockets e') \<and>
      scheduled (snd (run H evs (s', e'))) = scheduled e' \<and>
      timers (snd (run H evs (s', e'))) = []"
    if h: "maxReconnectAttempts s' \<le> reconnectAttempts s' \<and> timers e' = [] \<and>
        (\<forall>ev \<in> set evs. \<not> is_Connect ev \<and> ev \<noteq> Open)" for evs s' e'
    using idle_run [of evs "(s', e')" H] h by simp
  from A B C show ?thesis by blast
qed

theorem reconnect_budget_witness:
  "reconnectAttempts constructor = 0 \<and> maxReconnectAttempts constructor = 5 \<and>
   reconnectDelay constructor = 1000 \<and>
   scheduled (snd (run counting
       (failures [(1006, []), (1006, []), (1006, []), (1006, []), (1006, []), (1006, [])])
       (constructor, env0))) = [1000, 2000, 4000, 8000, 16000] \<and>
   emitted (snd (run counting
       (failures [(1006, []), (1006, []), (1006, []), (1006, []), (1006, []), (1006, [])])
       (constructor, env0))) =
     [disconnected (1006, []), disconnected (1006, []), disconnected (1006, []),
      disconnected (1006, []), disconnected (1006, []), disconnected (1006, []),
      (''max_reconnect_attempts'', JObj [])] \<and>
   timers (snd (run counting
       (failures [(1006, []), (1006, []), (1006, []), (1006, []), (1006, []), (1006, [])])
       (constructor, env0))) = []"
proof -
  let ?cs = "[(1006, []), (1006, []), (1006, []), (1006, []), (1006, []), (1006 :: int, [] :: string)]"
  have h: "reconnectAttempts constructor = 0" "maxReconnectAttempts constructor = 5"
    "reconnectDelay constructor = 1000"
    by (simp_all add: constructor_def)
  have r: "scheduled env0 = []" "emitted env0 = []"
    by (simp_all add: env0_def)
  have pre: "length ?cs = 6 \<and> (\<forall>c \<in> set ?cs. fst c \<noteq> 1000) \<and> timers env0 = []"
    by (simp add: env0_def)
  note t = reconnect_budget [OF h, of counting env0]
  from t pre have "scheduled (snd (run counting (failures ?cs) (constructor, env0))) =
        scheduled env0 @ [1000, 2000, 4000, 8000, 16000] \<and>
      emitted (snd (run counting (failures ?cs) (constructor, env0))) =
        emitted env0 @ map disconnected ?cs @ [(''max_reconnect_attempts'', JObj [])] \<and>
      timers (snd (run counting (failures ?cs) (constructor, env0))) = []"
    by blast
  then show ?thesis
    unfolding r using h by simp
qed

text \<open>
  C9. No event other than a successful open lowers \<^verbatim>\<open>reconnectAttempts\<close>:
  \<^verbatim>\<open>connect\<close> leaves it as it is (or, when the socket constructor throws, goes through
  \<^verbatim>\<open>scheduleReconnect\<close>, which never lowers it), and \<^verbatim>\<open>onopen\<close> sets it to 0. So once
  the budget is used it stays used until a connection opens; meanwhile a \<^verbatim>\<open>connect\<close>
  whose socket then closes with a code other than 1000 emits \<^verbatim>\<open>disconnected\<close> and at
  once \<^verbatim>\<open>max_reconnect_attempts\<close>, and a \<^verbatim>\<open>connect\<close> whose socket constructor throws
  emits \<^verbatim>\<open>max_reconnect_attempts\<close>; neither sets a timer.
\<close>

theorem attempts_reset_only_on_open:
  "(\<forall>ev. ev \<noteq> Open \<longrightarrow> reconnectAttempts (fst se) \<le> reconnectAttempts (fst (step H ev se))) \<and>
   reconnectAttempts (fst (connect H tok False se)) = reconnectAttempts (fst se) \<and>
   reconnectAttempts (fst se) \<le> reconnectAttempts (fst (connect H tok True se)) \<and>
   reconnectAttempts (fst se) \<le> reconnectAttempts (fst (scheduleReconnect H se)) \<and>
   reconnectAttempts (fst (onopen H se)) = 0 \<and>
   (maxReconnectAttempts (fst se) \<le> reconnectAttempts (fst se) \<longrightarrow>
      (\<forall>evs. Open \<notin> set evs \<longrightarrow>
         maxReconnectAttempts (fst (run H evs se)) \<le> reconnectAttempts (fst (run H evs se))) \<and>
      (\<forall>c r. c \<noteq> 1000 \<longrightarrow>
         emitted (snd (onclose H c r (connect H tok False se))) =
           emitted (snd se) @ [disconnected (c, r), (''max_reconnect_attempts'', JObj [])] \<and>
         scheduled (snd (onclose H c r (connect H tok False se))) = scheduled (snd se) \<and>
         timers (snd (onclose H c r (connect H tok False se))) = timers (snd se) \<and>
         reconnectAttempts (fst (onclose H c r (connect H tok False se))) =
           reconnectAttempts (fst se)) \<and>
      emitted (snd (connect H tok True se)) =
        emitted (snd se) @ [(''max_reconnect_attempts'', JObj [])] \<and>
      scheduled (snd (connect H tok True se)) = scheduled (snd se) \<and>
      timers (snd (connect H tok True se)) = timers (snd se))"
proof -
  have a: "\<forall>ev. ev \<noteq> Open \<longrightarrow> reconnectAttempts (fst se) \<le> reconnectAttempts (fst (step H ev se))"
    by (simp add: attempts_mono_step)
  have b: "reconnectAttempts (fst (connect H tok False se)) = reconnectAttempts (fst se)"
    by (rule connect_ok_fields)
  have c: "reconnectAttempts (fst se) \<le> reconnectAttempts (fst (connect H tok True se))"
    using attempts_mono_step [of "Connect tok True" se H] by simp
  have d: "reconnectAttempts (fst se) \<le> reconnectAttempts (fst (scheduleReconnect H se))"
    by (simp add: scheduleReconnect_def Let_def)
  have e: "reconnectAttempts (fst (onopen H se)) = 0"
    by (simp add: onopen_def Let_def startPingInterval_def)
  have f: "(\<forall>evs. Open \<notin> set evs \<longrightarrow>
         maxReconnectAttempts (fst (run H evs se)) \<le> reconnectAttempts (fst (run H evs se))) \<and>
      (\<forall>c r. c \<noteq> 1000 \<longrightarrow>
         emitted (snd (onclose H c r (connect H tok False se))) =
           emitted (snd se) @ [disconnected (c, r), (''max_reconnect_attempts'', JObj [])] \<and>
         scheduled (snd (onclose H c r (connect H tok False se))) = scheduled (snd se) \<and>
         timers (snd (onclose H c r (connect H tok False se))) = timers (snd se) \<and>
         reconnectAttempts (fst (onclose H c r (connect H tok False se))) =
           reconnectAttempts (fst se)) \<and>
      emitted (snd (connect H tok True se)) =
        emitted (snd se) @ [(''max_reconnect_attempts'', JObj [])] \<and>
      scheduled (snd (connect H tok True se)) = scheduled (snd se) \<and>
      timers (snd (connect H tok True se)) = timers (snd se)"
    if ex: "maxReconnectAttempts (fst se) \<le> reconnectAttempts (fst se)"
  proof -
    have 1: "\<forall>evs. Open \<notin> set evs \<longrightarrow>
         maxReconnectAttempts (fst (run H evs se)) \<le> reconnectAttempts (fst (run H evs se))"
      using ex by (simp add: exhausted_run)
    let ?c = "connect H tok False se"
    have ex': "maxReconnectAttempts (fst ?c) \<le> reconnectAttempts (fst ?c)"
      using ex by (simp add: connect_ok_fields)
    have 2: "emitted (snd (onclose H c r ?c)) =
           emitted (snd se) @ [disconnected (c, r), (''max_reconnect_attempts'', JObj [])] \<and>
         scheduled (snd (onclose H c r ?c)) = scheduled (snd se) \<and>
         timers (snd (onclose H c r ?c)) = timers (snd se) \<and>
         reconnectAttempts (fst (onclose H c r ?c)) = reconnectAttempts (fst se)"
      if "c \<noteq> 1000" for c r
      using close_exhausted [OF ex' that, of H r "snd ?c"]
      by (simp add: connect_ok_fields)
    have 3: "emitted (snd (connect H tok True se)) =
        emitted (snd se) @ [(''max_reconnect_attempts'', JObj [])] \<and>
      scheduled (snd (connect H tok True se)) = scheduled (snd se) \<and>
      timers (snd (connect H tok True se)) = timers (snd se)"
      using connect_throws_exhausted [OF ex, of H tok "snd se"] by simp
    from 1 2 3 show ?thesis by blast
  qed
  from a b c d e f show ?thesis by blast
qed

theorem attempts_reset_only_on_open_witness:
  "maxReconnectAttempts (fst (constructor\<lparr>reconnectAttempts := 5\<rparr>, env0)) \<le>
     reconnectAttempts (fst (constructor\<lparr>reconnectAttempts := 5\<rparr>, env0)) \<and>
   emitted (snd (onclose counting 1006 [] (connect counting (Some ''t'') False
       (constructor\<lparr>reconnectAttempts := 5\<rparr>, env0)))) =
     [disconnected (1006, []), (''max_reconnect_attempts'', JObj [])] \<and>
   scheduled (snd (onclose counting 1006 [] (connect counting (Some ''t'') False
       (constructor\<lparr>reconnectAttempts := 5\<rparr>, env0)))) = [] \<and>
   reconnectAttempts (fst (onclose counting 1006 [] (connect counting (Some ''t'') False
       (constructor\<lparr>reconnectAttempts := 5\<rparr>, env0)))) = 5 \<and>
   reconnectAttempts (fst (onopen counting (connect counting (Some ''t'') False
       (constructor\<lparr>reconnectAttempts := 5\<rparr>, env0)))) = 0"
proof -
  let ?se = "(constructor\<lparr>reconnectAttempts := 5\<rparr>, env0)"
  have h: "maxReconnectAttempts (fst ?se) \<le> reconnectAttempts (fst ?se)"
    by (simp add: constructor_def)
  have r: "emitted (snd ?se) = []" "scheduled (snd ?se) = []" "reconnectAttempts (fst ?se) = 5"
    by (simp_all add: env0_def)
  have ne: "(1006 :: int) \<noteq> 1000" by simp
  note t = attempts_reset_only_on_open [of ?se counting "Some ''t''"]
  from t h ne have "emitted (snd (onclose counting 1006 [] (connect counting (Some ''t'') False ?se))) =
           emitted (snd ?se) @ [disconnected (1006, []), (''max_reconnect_attempts'', JObj [])] \<and>
         scheduled (snd (onclose counting 1006 [] (connect counting (Some ''t'') False ?se))) =
           scheduled (snd ?se) \<and>
         reconnectAttempts (fst (onclose counting 1006 [] (connect counting (Some ''t'') False ?se))) =
           reconnectAttempts (fst ?se)"
    by blast
  then have a: "emitted (snd (onclose counting 1006 [] (connect counting (Some ''t'') False ?se))) =
           [disconnected (1006, []), (''max_reconnect_attempts'', JObj [])] \<and>
         scheduled (snd (onclose counting 1006 [] (connect counting (Some ''t'') False ?se))) = [] \<and>
         reconnectAttempts (fst (onclose counting 1006 [] (connect counting (Some ''t'') False ?se))) = 5"
    unfolding r by simp
  have b: "reconnectAttempts (fst (onopen counting (connect counting (Some ''t'') False ?se))) = 0"
    using attempts_reset_only_on_open [of "connect counting (Some ''t'') False ?se" counting None]
    by blast
  from h a b show ?thesis by blast
qed

end
